theory Spec2Isabelle
  imports
    Main
    "HOL-Library.Char_ord"
    "HOL-Library.List_Lexorder"
    "HOL-Library.Sublist"
    "HOL-Library.AList"
begin

section \<open>JavaScript strings\<close>

text \<open>
  Strings are \<^typ>\<open>string\<close>; the model is exact for ASCII text, where a \<^typ>\<open>char\<close> is one
  UTF-16 code unit and the default order of \<open>Array.prototype.sort\<close> is the lexicographic
  order of \<^theory_text>\<open>List_Lexorder\<close> over \<^theory_text>\<open>Char_ord\<close>.
\<close>

definition startsWith :: "string \<Rightarrow> string \<Rightarrow> bool" where
  "startsWith s p = (take (length p) s = p)"

definition endsWith :: "string \<Rightarrow> string \<Rightarrow> bool" where
  "endsWith s p = (length p \<le> length s \<and> drop (length s - length p) s = p)"

text \<open>\<open>String.prototype.includes\<close>: is there a position at which \<open>q\<close> starts?\<close>

fun includesStr :: "string \<Rightarrow> string \<Rightarrow> bool" where
  "includesStr [] q = (q = [])"
| "includesStr (c # cs) q = (startsWith (c # cs) q \<or> includesStr cs q)"

definition toLowerChar :: "char \<Rightarrow> char" where
  "toLowerChar c =
     (case map_of (zip ''ABCDEFGHIJKLMNOPQRSTUVWXYZ'' ''abcdefghijklmnopqrstuvwxyz'') c of
        None \<Rightarrow> c
      | Some l \<Rightarrow> l)"

definition toLowerCase :: "string \<Rightarrow> string" where
  "toLowerCase s = map toLowerChar s"

definition isWhiteSpace :: "char \<Rightarrow> bool" where
  "isWhiteSpace c = ((of_char c :: nat) \<in> {9, 10, 11, 12, 13, 32})"

definition trim :: "string \<Rightarrow> string" where
  "trim s = rev (dropWhile isWhiteSpace (rev (dropWhile isWhiteSpace s)))"

definition digit :: "nat \<Rightarrow> char" where
  "digit d = ''0123456789'' ! d"

text \<open>A number interpolated into a template literal: its decimal digits.\<close>

fun decimal :: "nat \<Rightarrow> string" where
  "decimal n = (if n < 10 then [digit n] else decimal (n div 10) @ [digit (n mod 10)])"

declare decimal.simps [simp del]

fun join :: "string \<Rightarrow> string list \<Rightarrow> string" where
  "join sep [] = []"
| "join sep [x] = x"
| "join sep (x # y # ys) = x @ sep @ join sep (y # ys)"

section \<open>JavaScript values, JSON text and errors\<close>

text \<open>
  A \<open>Date\<close> object is represented by the string its \<open>toISOString()\<close> returns, which for a
  valid date fixes the time value; \<open>InvalidDate\<close> is the date whose time value is NaN.
  The clock is an input of every operation that reads it: \<open>now\<close> is the ISO string of
  \<open>new Date()\<close>.
\<close>

datatype jsdate = Date string | InvalidDate

datatype jsval =
    VUndefined
  | VNull
  | VBool bool
  | VNum int
  | VStr string
  | VDate jsdate
  | VArr "jsval list"
  | VObj "(string \<times> jsval) list"

text \<open>
  What \<open>JSON.parse\<close> makes of a JSON text, before any reviver runs. Numbers are the
  integers (a \<open>todoCount\<close> is a length); object keys are assumed distinct.
\<close>

datatype json =
    JNull
  | JBool bool
  | JNum int
  | JStr string
  | JArr "json list"
  | JObj "(string \<times> json) list"

datatype js_error =
    Error string
  | SyntaxError string
  | RangeError string
  | TypeError string
  | FileManagerError string string "js_error option"

fun message :: "js_error \<Rightarrow> string" where
  "message (Error m) = m"
| "message (SyntaxError m) = m"
| "message (RangeError m) = m"
| "message (TypeError m) = m"
| "message (FileManagerError m c orig) = m"

fun code :: "js_error \<Rightarrow> string" where
  "code (FileManagerError m c orig) = c"
| "code e = []"

fun originalError :: "js_error \<Rightarrow> js_error option" where
  "originalError (FileManagerError m c orig) = orig"
| "originalError e = None"

text \<open>Property access \<open>v.k\<close>; a missing property reads as \<open>undefined\<close>.\<close>

fun getProp :: "jsval \<Rightarrow> string \<Rightarrow> jsval" where
  "getProp (VObj kvs) k = (case map_of kvs k of Some v \<Rightarrow> v | None \<Rightarrow> VUndefined)"
| "getProp v k = VUndefined"

text \<open>\<open>v && typeof v === 'object'\<close>\<close>

fun isObject :: "jsval \<Rightarrow> bool" where
  "isObject (VObj kvs) = True"
| "isObject (VArr xs) = True"
| "isObject (VDate d) = True"
| "isObject v = False"

text \<open>\<open>v && typeof v === 'string'\<close>, the negation of \<open>!v || typeof v !== 'string'\<close>\<close>

fun isNonEmptyString :: "jsval \<Rightarrow> bool" where
  "isNonEmptyString (VStr s) = (s \<noteq> [])"
| "isNonEmptyString v = False"

fun isBoolean :: "jsval \<Rightarrow> bool" where
  "isBoolean (VBool b) = True"
| "isBoolean v = False"

fun isNumber :: "jsval \<Rightarrow> bool" where
  "isNumber (VNum n) = True"
| "isNumber v = False"

fun isDate :: "jsval \<Rightarrow> bool" where
  "isDate (VDate d) = True"
| "isDate v = False"

fun elements :: "jsval \<Rightarrow> jsval list" where
  "elements (VArr xs) = xs"
| "elements v = []"

subsection \<open>\<open>JSON.stringify\<close> with a replacer\<close>

text \<open>
  ECMA-262, SerializeJSONProperty: the value is read from its holder; if it is an object
  with a \<open>toJSON\<close> method, it is replaced by the result of that method; only then is the
  replacer function called, on the replaced value. \<open>Date.prototype.toJSON\<close> returns
  \<open>toISOString()\<close> for a valid date and \<open>null\<close> for an invalid one.
\<close>

fun toJSON :: "jsval \<Rightarrow> jsval" where
  "toJSON (VDate (Date s)) = VStr s"
| "toJSON (VDate InvalidDate) = VNull"
| "toJSON v = v"

type_synonym replacer = "string \<Rightarrow> jsval \<Rightarrow> js_error + jsval"

text \<open>
  The serializer recurses into what the replacer returned, so its depth is bounded by
  the call stack only: the first argument is the number of frames left.
  A property whose serialization is \<open>undefined\<close> is left out of an object and written
  as \<open>null\<close> in an array.
\<close>

fun serializeProperty :: "nat \<Rightarrow> replacer \<Rightarrow> string \<Rightarrow> jsval \<Rightarrow> js_error + json option"
  and serializeElements :: "nat \<Rightarrow> replacer \<Rightarrow> nat \<Rightarrow> jsval list \<Rightarrow> js_error + json list"
  and serializeMembers :: "nat \<Rightarrow> replacer \<Rightarrow> (string \<times> jsval) list \<Rightarrow> js_error + (string \<times> json) list"
where
  "serializeProperty 0 r k v = Inl (RangeError ''Maximum call stack size exceeded'')"
| "serializeProperty (Suc n) r k v =
     (case r k (toJSON v) of
        Inl e \<Rightarrow> Inl e
      | Inr VUndefined \<Rightarrow> Inr None
      | Inr VNull \<Rightarrow> Inr (Some JNull)
      | Inr (VBool b) \<Rightarrow> Inr (Some (JBool b))
      | Inr (VNum i) \<Rightarrow> Inr (Some (JNum i))
      | Inr (VStr s) \<Rightarrow> Inr (Some (JStr s))
      | Inr (VDate d) \<Rightarrow> Inr (Some (JObj []))
      | Inr (VArr xs) \<Rightarrow>
          (case serializeElements n r 0 xs of Inl e \<Rightarrow> Inl e | Inr js \<Rightarrow> Inr (Some (JArr js)))
      | Inr (VObj kvs) \<Rightarrow>
          (case serializeMembers n r kvs of Inl e \<Rightarrow> Inl e | Inr ms \<Rightarrow> Inr (Some (JObj ms))))"
| "serializeElements n r i [] = Inr []"
| "serializeElements n r i (x # xs) =
     (case serializeProperty n r (decimal i) x of
        Inl e \<Rightarrow> Inl e
      | Inr None \<Rightarrow>
          (case serializeElements n r (Suc i) xs of Inl e \<Rightarrow> Inl e | Inr js \<Rightarrow> Inr (JNull # js))
      | Inr (Some j) \<Rightarrow>
          (case serializeElements n r (Suc i) xs of Inl e \<Rightarrow> Inl e | Inr js \<Rightarrow> Inr (j # js)))"
| "serializeMembers n r [] = Inr []"
| "serializeMembers n r ((k, x) # kvs) =
     (case serializeProperty n r k x of
        Inl e \<Rightarrow> Inl e
      | Inr None \<Rightarrow> serializeMembers n r kvs
      | Inr (Some j) \<Rightarrow>
          (case serializeMembers n r kvs of Inl e \<Rightarrow> Inl e | Inr ms \<Rightarrow> Inr ((k, j) # ms)))"

definition callStack :: nat where
  "callStack = 1000"

definition stringify :: "replacer \<Rightarrow> jsval \<Rightarrow> js_error + json option" where
  "stringify r v = serializeProperty callStack r [] v"

subsection \<open>\<open>JSON.parse\<close> with a reviver\<close>

text \<open>
  ECMA-262, InternalizeJSONProperty: the members of an object or array are revived
  first, a member revived to \<open>undefined\<close> is deleted, and the reviver is then called on
  the holder's value itself.
\<close>

type_synonym reviver = "string \<Rightarrow> jsval \<Rightarrow> jsval"

fun internalize :: "reviver \<Rightarrow> string \<Rightarrow> json \<Rightarrow> jsval"
  and internalizeElements :: "reviver \<Rightarrow> nat \<Rightarrow> json list \<Rightarrow> jsval list"
  and internalizeMembers :: "reviver \<Rightarrow> (string \<times> json) list \<Rightarrow> (string \<times> jsval) list"
where
  "internalize r k JNull = r k VNull"
| "internalize r k (JBool b) = r k (VBool b)"
| "internalize r k (JNum i) = r k (VNum i)"
| "internalize r k (JStr s) = r k (VStr s)"
| "internalize r k (JArr js) = r k (VArr (internalizeElements r 0 js))"
| "internalize r k (JObj ms) = r k (VObj (internalizeMembers r ms))"
| "internalizeElements r i [] = []"
| "internalizeElements r i (j # js) = internalize r (decimal i) j # internalizeElements r (Suc i) js"
| "internalizeMembers r [] = []"
| "internalizeMembers r ((k, j) # ms) =
     (case internalize r k j of
        VUndefined \<Rightarrow> internalizeMembers r ms
      | v \<Rightarrow> (k, v) # internalizeMembers r ms)"

definition parse :: "reviver \<Rightarrow> json \<Rightarrow> jsval" where
  "parse r j = internalize r [] j"

section \<open>The persistence store: \<open>FileManager.ts\<close>\<close>

text \<open>
  The file system as far as the store touches it: the data file at \<open>config.dataPath\<close>,
  its sibling \<open>dataPath.tmp\<close>, and the entries of the directory \<open>config.backupPath\<close>
  (\<open>None\<close>: the directory does not exist). The three places are taken to be different
  places, as they are in the default configuration. A file's text is kept as what
  \<open>trim()\<close> and \<open>JSON.parse\<close> make of it: blank, not JSON, or the JSON tree it denotes.
\<close>

datatype filetext = Blank | Garbled | JsonText json

record fs =
  dataFile :: "filetext option"
  tempFile :: "filetext option"
  backupDir :: "(string \<times> filetext) list option"

record FileManagerConfig =
  dataPath :: string
  backupPath :: "string option"
  autoBackup :: bool
  maxBackups :: "nat option"

definition DEFAULT_CONFIG :: FileManagerConfig where
  "DEFAULT_CONFIG =
     \<lparr>dataPath = ''./data/todos.json'', backupPath = Some ''./data/backups'',
      autoBackup = True, maxBackups = Some 5\<rparr>"

text \<open>\<open>if (path)\<close> for an optional string: absent and empty are both false.\<close>

fun isSet :: "string option \<Rightarrow> bool" where
  "isSet None = False"
| "isSet (Some p) = (p \<noteq> [])"

definition ENOENT :: js_error where
  "ENOENT = Error ''ENOENT: no such file or directory''"

subsection \<open>File-system calls\<close>

definition fileExists :: "fs \<Rightarrow> bool" where
  "fileExists s = (dataFile s \<noteq> None)"

definition readdir :: "fs \<Rightarrow> js_error + string list" where
  "readdir s = (case backupDir s of None \<Rightarrow> Inl ENOENT | Some es \<Rightarrow> Inr (map fst es))"

text \<open>\<open>fs.copyFile(dataPath, join(backupPath, name))\<close>; an existing destination is overwritten.\<close>

definition copyFile :: "string \<Rightarrow> fs \<Rightarrow> js_error + fs" where
  "copyFile name s =
     (case dataFile s of
        None \<Rightarrow> Inl ENOENT
      | Some t \<Rightarrow>
          (case backupDir s of
             None \<Rightarrow> Inl ENOENT
           | Some es \<Rightarrow> Inr (s\<lparr>backupDir := Some (AList.update name t es)\<rparr>)))"

text \<open>\<open>fs.unlink(join(backupPath, name))\<close>\<close>

definition unlink :: "string \<Rightarrow> fs \<Rightarrow> js_error + fs" where
  "unlink name s =
     (case backupDir s of
        None \<Rightarrow> Inl ENOENT
      | Some es \<Rightarrow>
          if name \<in> fst ` set es then Inr (s\<lparr>backupDir := Some (AList.delete name es)\<rparr>)
          else Inl ENOENT)"

text \<open>\<open>fs.writeFile(tempFile, text)\<close> and \<open>fs.rename(tempFile, dataPath)\<close>\<close>

definition writeFile :: "filetext \<Rightarrow> fs \<Rightarrow> fs" where
  "writeFile t s = s\<lparr>tempFile := Some t\<rparr>"

definition rename :: "fs \<Rightarrow> js_error + fs" where
  "rename s =
     (case tempFile s of
        None \<Rightarrow> Inl ENOENT
      | Some t \<Rightarrow> Inr (s\<lparr>dataFile := Some t, tempFile := None\<rparr>))"

subsection \<open>Date encoding\<close>

fun dateSerializer :: replacer where
  "dateSerializer key (VDate (Date s)) = Inr (VObj [(''__date'', VStr s)])"
| "dateSerializer key (VDate InvalidDate) = Inl (RangeError ''Invalid time value'')"
| "dateSerializer key v = Inr v"

text \<open>
  \<open>new Date(x)\<close>, exact where \<open>x\<close> is an ISO string, the only content \<open>dateSerializer\<close>
  gives a wrapper.
\<close>

fun newDate :: "jsval \<Rightarrow> jsdate" where
  "newDate (VStr s) = Date s"
| "newDate v = InvalidDate"

fun dateDeserializer :: reviver where
  "dateDeserializer key (VObj kvs) =
     (case map_of kvs ''__date'' of Some x \<Rightarrow> VDate (newDate x) | None \<Rightarrow> VObj kvs)"
| "dateDeserializer key v = v"

text \<open>\<open>JSON.parse(text, this.dateDeserializer)\<close>\<close>

fun parseText :: "filetext \<Rightarrow> js_error + jsval" where
  "parseText Blank = Inl (SyntaxError ''Unexpected end of JSON input'')"
| "parseText Garbled = Inl (SyntaxError ''Unexpected token'')"
| "parseText (JsonText j) = Inr (parse dateDeserializer j)"

subsection \<open>Structural validation\<close>

definition validateTodo :: "jsval \<Rightarrow> js_error + unit" where
  "validateTodo todo =
     (if \<not> isObject todo then Inl (Error ''Todo must be an object'')
      else if \<not> isNonEmptyString (getProp todo ''id'') then
        Inl (Error ''Todo must have a valid id'')
      else if \<not> isNonEmptyString (getProp todo ''title'') then
        Inl (Error ''Todo must have a valid title'')
      else if \<not> isBoolean (getProp todo ''completed'') then
        Inl (Error ''Todo completed status must be a boolean'')
      else if \<not> isNonEmptyString (getProp todo ''priority'') then
        Inl (Error ''Todo must have a valid priority'')
      else if \<not> isNonEmptyString (getProp todo ''categoryId'') then
        Inl (Error ''Todo must have a valid categoryId'')
      else if \<not> isDate (getProp todo ''createdAt'') then
        Inl (Error ''Todo must have a valid createdAt date'')
      else Inr ())"

definition validateCategory :: "jsval \<Rightarrow> js_error + unit" where
  "validateCategory category =
     (if \<not> isObject category then Inl (Error ''Category must be an object'')
      else if \<not> isNonEmptyString (getProp category ''id'') then
        Inl (Error ''Category must have a valid id'')
      else if \<not> isNonEmptyString (getProp category ''name'') then
        Inl (Error ''Category must have a valid name'')
      else if \<not> isNonEmptyString (getProp category ''color'') then
        Inl (Error ''Category must have a valid color'')
      else if \<not> isNumber (getProp category ''todoCount'') then
        Inl (Error ''Category todoCount must be a number'')
      else Inr ())"

fun validateTodos :: "nat \<Rightarrow> jsval list \<Rightarrow> js_error + unit" where
  "validateTodos i [] = Inr ()"
| "validateTodos i (t # ts) =
     (case validateTodo t of
        Inl e \<Rightarrow> Inl (Error (''Invalid todo at index '' @ decimal i @ '': '' @ message e))
      | Inr u \<Rightarrow> validateTodos (Suc i) ts)"

fun validateCategories :: "nat \<Rightarrow> jsval list \<Rightarrow> js_error + unit" where
  "validateCategories i [] = Inr ()"
| "validateCategories i (c # cs) =
     (case validateCategory c of
        Inl e \<Rightarrow> Inl (Error (''Invalid category at index '' @ decimal i @ '': '' @ message e))
      | Inr u \<Rightarrow> validateCategories (Suc i) cs)"

fun isArray :: "jsval \<Rightarrow> bool" where
  "isArray (VArr xs) = True"
| "isArray v = False"

text \<open>The closing referential-integrity loop only warns on the console.\<close>

definition validateData :: "jsval \<Rightarrow> js_error + unit" where
  "validateData data =
     (if \<not> isObject data then Inl (Error ''Data must be an object'')
      else if \<not> isArray (getProp data ''todos'') then Inl (Error ''todos must be an array'')
      else if \<not> isArray (getProp data ''categories'') then
        Inl (Error ''categories must be an array'')
      else if \<not> isNonEmptyString (getProp data ''version'') then
        Inl (Error ''version must be a string'')
      else
        (case validateTodos 0 (elements (getProp data ''todos'')) of
           Inl e \<Rightarrow> Inl e
         | Inr u \<Rightarrow> validateCategories 0 (elements (getProp data ''categories''))))"

definition migrateData :: "jsval \<Rightarrow> jsval" where
  "migrateData data = data"

subsection \<open>Backups\<close>

definition backupFileName :: "string \<Rightarrow> string" where
  "backupFileName now =
     ''todos-backup-''
       @ map (\<lambda>c. if c = CHR '':'' \<or> c = CHR ''.'' then CHR ''-'' else c) now
       @ ''.json''"

definition isBackupName :: "string \<Rightarrow> bool" where
  "isBackupName file = (startsWith file ''todos-backup-'' \<and> endsWith file ''.json'')"

text \<open>\<open>backupFiles.filter(...).sort().reverse()\<close>: most recent first.\<close>

definition todoBackups :: "string list \<Rightarrow> string list" where
  "todoBackups backupFiles = rev (sort (filter isBackupName backupFiles))"

text \<open>The loop of \<open>unlink\<close> calls; the first failure leaves the loop (and is caught).\<close>

fun unlinkAll :: "string list \<Rightarrow> fs \<Rightarrow> fs" where
  "unlinkAll [] s = s"
| "unlinkAll (file # files) s =
     (case unlink file s of Inl e \<Rightarrow> s | Inr s' \<Rightarrow> unlinkAll files s')"

definition cleanupOldBackups :: "FileManagerConfig \<Rightarrow> fs \<Rightarrow> fs" where
  "cleanupOldBackups cfg s =
     (case maxBackups cfg of
        None \<Rightarrow> s
      | Some n \<Rightarrow>
          if \<not> isSet (backupPath cfg) \<or> n = 0 then s
          else
            (case readdir s of
               Inl e \<Rightarrow> s
             | Inr backupFiles \<Rightarrow>
                 if length (todoBackups backupFiles) > n
                 then unlinkAll (drop n (todoBackups backupFiles)) s
                 else s))"

text \<open>
  \<open>if (this.config.maxBackups)\<close> is false for an absent maximum and for the maximum 0.
\<close>

definition createBackup :: "FileManagerConfig \<Rightarrow> string \<Rightarrow> fs \<Rightarrow> fs" where
  "createBackup cfg now s =
     (if \<not> isSet (backupPath cfg) \<or> \<not> fileExists s then s
      else
        (case copyFile (backupFileName now) s of
           Inl e \<Rightarrow> s
         | Inr s' \<Rightarrow>
             (case maxBackups cfg of
                None \<Rightarrow> s'
              | Some n \<Rightarrow> if n = 0 then s' else cleanupOldBackups cfg s')))"

definition manualBackup :: "FileManagerConfig \<Rightarrow> string \<Rightarrow> fs \<Rightarrow> fs" where
  "manualBackup cfg now s = createBackup cfg now s"

subsection \<open>\<open>load\<close>\<close>

type_synonym records = "jsval list \<times> jsval list"

definition createEmptyData :: records where
  "createEmptyData = ([], [])"

definition loadFromBackupTry :: "fs \<Rightarrow> js_error + records" where
  "loadFromBackupTry s =
     (case readdir s of
        Inl e \<Rightarrow> Inl e
      | Inr backupFiles \<Rightarrow>
          (case todoBackups backupFiles of
             [] \<Rightarrow> Inl (FileManagerError ''No backup files found'' ''NO_BACKUPS'' None)
           | latestBackup # older \<Rightarrow>
               (case map_of (the (backupDir s)) latestBackup of
                  None \<Rightarrow> Inl ENOENT
                | Some backupContent \<Rightarrow>
                    (case parseText backupContent of
                       Inl e \<Rightarrow> Inl e
                     | Inr todoData \<Rightarrow>
                         (case validateData todoData of
                            Inl e \<Rightarrow> Inl e
                          | Inr u \<Rightarrow>
                              Inr (elements (getProp todoData ''todos''),
                                   elements (getProp todoData ''categories'')))))))"

definition loadFromBackup :: "FileManagerConfig \<Rightarrow> fs \<Rightarrow> js_error + records" where
  "loadFromBackup cfg s =
     (if \<not> isSet (backupPath cfg) then
        Inl (FileManagerError ''No backup path configured'' ''NO_BACKUP_PATH'' None)
      else
        (case loadFromBackupTry s of
           Inl e \<Rightarrow>
             Inl (FileManagerError (''Failed to load from backup: '' @ message e)
                    ''BACKUP_LOAD_ERROR'' (Some e))
         | Inr r \<Rightarrow> Inr r))"

text \<open>The \<open>try\<close> block of \<open>load\<close>.\<close>

definition loadTry :: "fs \<Rightarrow> js_error + records" where
  "loadTry s =
     (case dataFile s of
        None \<Rightarrow> Inr createEmptyData
      | Some fileContent \<Rightarrow>
          if fileContent = Blank then Inr createEmptyData
          else
            (case parseText fileContent of
               Inl e \<Rightarrow> Inl e
             | Inr todoData \<Rightarrow>
                 (case validateData todoData of
                    Inl e \<Rightarrow> Inl e
                  | Inr u \<Rightarrow>
                      Inr (elements (getProp (migrateData todoData) ''todos''),
                           elements (getProp (migrateData todoData) ''categories'')))))"

text \<open>
  The \<open>catch\<close> block builds the \<open>LOAD_ERROR\<close> and throws it only when automatic backups
  are off; otherwise the outcome of \<open>loadFromBackup\<close> is the outcome of \<open>load\<close>.
\<close>

definition load :: "FileManagerConfig \<Rightarrow> fs \<Rightarrow> js_error + records" where
  "load cfg s =
     (case loadTry s of
        Inr r \<Rightarrow> Inr r
      | Inl e \<Rightarrow>
          if autoBackup cfg then loadFromBackup cfg s
          else Inl (FileManagerError (''Failed to load data: '' @ message e) ''LOAD_ERROR'' (Some e)))"

subsection \<open>\<open>save\<close>\<close>

text \<open>\<open>{ ...data, version: '1.0.0', lastModified: new Date().toISOString() }\<close>\<close>

definition envelope :: "string \<Rightarrow> records \<Rightarrow> jsval" where
  "envelope now data =
     VObj [(''todos'', VArr (fst data)), (''categories'', VArr (snd data)),
           (''version'', VStr ''1.0.0''), (''lastModified'', VStr now)]"

definition saveError :: "js_error \<Rightarrow> js_error" where
  "saveError e = FileManagerError (''Failed to save data: '' @ message e) ''SAVE_ERROR'' (Some e)"

text \<open>The text \<open>save\<close> is about to write, or the error thrown before any write.\<close>

definition serialized :: "string \<Rightarrow> records \<Rightarrow> js_error + filetext" where
  "serialized now data =
     (case validateData (envelope now data) of
        Inl e \<Rightarrow> Inl e
      | Inr u \<Rightarrow>
          (case stringify dateSerializer (envelope now data) of
             Inl e \<Rightarrow> Inl e
           | Inr None \<Rightarrow> Inl (TypeError ''The data argument must be of type string'')
           | Inr (Some j) \<Rightarrow> Inr (JsonText j)))"

definition save :: "FileManagerConfig \<Rightarrow> string \<Rightarrow> records \<Rightarrow> fs \<Rightarrow> (js_error + unit) \<times> fs" where
  "save cfg now data s =
     (let s1 = (if autoBackup cfg then createBackup cfg now s else s) in
      case serialized now data of
        Inl e \<Rightarrow> (Inl (saveError e), s1)
      | Inr jsonData \<Rightarrow>
          (case rename (writeFile jsonData s1) of
             Inl e \<Rightarrow> (Inl (saveError e), writeFile jsonData s1)
           | Inr s2 \<Rightarrow> (Inr (), s2)))"

subsection \<open>The states a \<open>save\<close> passes through\<close>

text \<open>
  The states of the file system that can be observed while an operation runs, in
  order. \<open>copyFile\<close> and \<open>writeFile\<close> are not atomic: their destination is first empty, then
  holds a truncated text, then the whole text. \<open>unlink\<close> and \<open>rename\<close> are atomic.
\<close>

definition copyFileStates :: "string \<Rightarrow> fs \<Rightarrow> fs list" where
  "copyFileStates file s =
     (case copyFile file s of
        Inl e \<Rightarrow> []
      | Inr s' \<Rightarrow>
          [s\<lparr>backupDir := map_option (AList.update file Blank) (backupDir s)\<rparr>,
           s\<lparr>backupDir := map_option (AList.update file Garbled) (backupDir s)\<rparr>,
           s'])"

fun unlinkAllStates :: "string list \<Rightarrow> fs \<Rightarrow> fs list" where
  "unlinkAllStates [] s = []"
| "unlinkAllStates (file # rest) s =
     (case unlink file s of Inl e \<Rightarrow> [] | Inr s' \<Rightarrow> s' # unlinkAllStates rest s')"

definition cleanupOldBackupsStates :: "FileManagerConfig \<Rightarrow> fs \<Rightarrow> fs list" where
  "cleanupOldBackupsStates cfg s =
     (case maxBackups cfg of
        None \<Rightarrow> []
      | Some n \<Rightarrow>
          if \<not> isSet (backupPath cfg) \<or> n = 0 then []
          else
            (case readdir s of
               Inl e \<Rightarrow> []
             | Inr backupFiles \<Rightarrow>
                 if length (todoBackups backupFiles) > n
                 then unlinkAllStates (drop n (todoBackups backupFiles)) s
                 else []))"

definition createBackupStates :: "FileManagerConfig \<Rightarrow> string \<Rightarrow> fs \<Rightarrow> fs list" where
  "createBackupStates cfg now s =
     (if \<not> isSet (backupPath cfg) \<or> \<not> fileExists s then []
      else
        (case copyFile (backupFileName now) s of
           Inl e \<Rightarrow> []
         | Inr s' \<Rightarrow>
             copyFileStates (backupFileName now) s
               @ (case maxBackups cfg of
                    None \<Rightarrow> []
                  | Some n \<Rightarrow> if n = 0 then [] else cleanupOldBackupsStates cfg s')))"

definition writeFileStates :: "filetext \<Rightarrow> fs \<Rightarrow> fs list" where
  "writeFileStates t s = [writeFile Blank s, writeFile Garbled s, writeFile t s]"

definition saveStates :: "FileManagerConfig \<Rightarrow> string \<Rightarrow> records \<Rightarrow> fs \<Rightarrow> fs list" where
  "saveStates cfg now data s =
     (let s1 = (if autoBackup cfg then createBackup cfg now s else s) in
      s # (if autoBackup cfg then createBackupStates cfg now s else [])
        @ (case serialized now data of
             Inl e \<Rightarrow> []
           | Inr jsonData \<Rightarrow>
               writeFileStates jsonData s1
                 @ (case rename (writeFile jsonData s1) of Inl e \<Rightarrow> [] | Inr s2 \<Rightarrow> [s2])))"

section \<open>Domain records and validators: \<open>Todo.ts\<close>, \<open>Category.ts\<close>\<close>

datatype Priority = LOW | MEDIUM | HIGH

text \<open>\<open>TodoInput = Omit<Todo, 'id' | 'createdAt' | 'completedAt'>\<close>; \<open>Todo\<close> adds the three.\<close>

record TodoInput =
  title :: string
  description :: "string option"
  completed :: bool
  priority :: Priority
  categoryId :: string
  dueDate :: "jsdate option"

record Todo = TodoInput +
  todoId :: string
  createdAt :: jsdate
  completedAt :: "jsdate option"

text \<open>
  \<open>Partial<Omit<Todo, 'id' | 'createdAt'>>\<close>. \<open>None\<close>: the property is absent; for the
  optional fields \<open>Some None\<close> is a property that is present and \<open>undefined\<close>, which the
  spread \<open>{ ...currentTodo, ...updates }\<close> copies.
\<close>

record TodoUpdate =
  upd_title :: "string option"
  upd_description :: "string option option"
  upd_completed :: "bool option"
  upd_priority :: "Priority option"
  upd_categoryId :: "string option"
  upd_completedAt :: "jsdate option option"
  upd_dueDate :: "jsdate option option"

definition noUpdate :: TodoUpdate where
  "noUpdate =
     \<lparr>upd_title = None, upd_description = None, upd_completed = None, upd_priority = None,
      upd_categoryId = None, upd_completedAt = None, upd_dueDate = None\<rparr>"

text \<open>A validator's result: \<open>None\<close> for \<open>{ isValid: true }\<close>, \<open>Some e\<close> for \<open>{ isValid: false, error: e }\<close>.\<close>

definition validateTitle :: "string \<Rightarrow> string option" where
  "validateTitle t =
     (if t = [] then Some ''Title is required and must be a string''
      else if length (trim t) = 0 then Some ''Title cannot be empty''
      else if length t > 200 then Some ''Title cannot exceed 200 characters''
      else None)"

definition validateDescription :: "string option \<Rightarrow> string option" where
  "validateDescription d =
     (case d of
        None \<Rightarrow> None
      | Some x \<Rightarrow> if length x > 1000 then Some ''Description cannot exceed 1000 characters'' else None)"

text \<open>Every value of the enumeration is one of \<open>Object.values(Priority)\<close>.\<close>

definition validatePriority :: "Priority \<Rightarrow> string option" where
  "validatePriority p = (if p \<notin> {LOW, MEDIUM, HIGH} then Some ''Priority must be one of: low, medium, high'' else None)"

definition validateCategoryId :: "string \<Rightarrow> string option" where
  "validateCategoryId c =
     (if c = [] then Some ''Category ID is required and must be a string''
      else if length (trim c) = 0 then Some ''Category ID cannot be empty''
      else None)"

definition validateDueDate :: "jsdate option \<Rightarrow> string option" where
  "validateDueDate d =
     (case d of
        None \<Rightarrow> None
      | Some InvalidDate \<Rightarrow> Some ''Due date must be a valid date''
      | Some (Date x) \<Rightarrow> None)"

fun errorList :: "string option list \<Rightarrow> string list" where
  "errorList [] = []"
| "errorList (None # rs) = errorList rs"
| "errorList (Some e # rs) = e # errorList rs"

definition validateTodoInput :: "TodoInput \<Rightarrow> string list" where
  "validateTodoInput input =
     errorList [validateTitle (title input), validateDescription (description input),
                validatePriority (priority input), validateCategoryId (categoryId input),
                validateDueDate (dueDate input)]"

text \<open>\<open>{ id: uuidv4(), createdAt: new Date(), completedAt: input.completed ? new Date() : undefined, ...input }\<close>\<close>

definition createTodo :: "string \<Rightarrow> string \<Rightarrow> TodoInput \<Rightarrow> Todo" where
  "createTodo now uuid input =
     \<lparr>title = title input, description = description input, completed = completed input,
      priority = priority input, categoryId = categoryId input, dueDate = dueDate input,
      todoId = uuid, createdAt = Date now,
      completedAt = (if completed input then Some (Date now) else None)\<rparr>"

text \<open>
  \<open>a < b\<close> on dates compares time values; on ISO strings of the years 0000 to 9999 that
  is the lexicographic order. A comparison with an invalid date is false.
\<close>

fun dateBefore :: "jsdate \<Rightarrow> jsdate \<Rightarrow> bool" where
  "dateBefore (Date a) (Date b) = (a < b)"
| "dateBefore a b = False"

definition isOverdue :: "string \<Rightarrow> Todo \<Rightarrow> bool" where
  "isOverdue now todo =
     (case dueDate todo of
        None \<Rightarrow> False
      | Some d \<Rightarrow> if completed todo then False else dateBefore d (Date now))"

text \<open>\<open>CategoryInput = Omit<Category, 'id' | 'todoCount'>\<close>\<close>

record CategoryInput =
  name :: string
  color :: string

record Category = CategoryInput +
  catId :: string
  todoCount :: int

text \<open>
  \<open>Partial<Omit<Category, 'id' | 'todoCount'>>\<close>. The payload of the model also has the
  \<open>todoCount\<close> a caller may pass against the declared type, which line 477 of the
  coordinator guards against.
\<close>

record CategoryUpdate =
  upd_name :: "string option"
  upd_color :: "string option"
  upd_todoCount :: "int option"

definition CATEGORY_COLORS_RED :: string where "CATEGORY_COLORS_RED = ''#e74c3c''"
definition CATEGORY_COLORS_BLUE :: string where "CATEGORY_COLORS_BLUE = ''#3498db''"
definition CATEGORY_COLORS_GREEN :: string where "CATEGORY_COLORS_GREEN = ''#2ecc71''"
definition CATEGORY_COLORS_ORANGE :: string where "CATEGORY_COLORS_ORANGE = ''#f39c12''"

definition DEFAULT_CATEGORIES :: "CategoryInput list" where
  "DEFAULT_CATEGORIES =
     [\<lparr>name = ''Personal'', color = CATEGORY_COLORS_BLUE\<rparr>,
      \<lparr>name = ''Work'', color = CATEGORY_COLORS_GREEN\<rparr>,
      \<lparr>name = ''Shopping'', color = CATEGORY_COLORS_ORANGE\<rparr>,
      \<lparr>name = ''Health'', color = CATEGORY_COLORS_RED\<rparr>]"

definition reservedNames :: "string list" where
  "reservedNames = [''all'', ''completed'', ''pending'', ''overdue'']"

definition validateName :: "string \<Rightarrow> string option" where
  "validateName n =
     (if n = [] then Some ''Category name is required and must be a string''
      else if length (trim n) = 0 then Some ''Category name cannot be empty''
      else if length n > 50 then Some ''Category name cannot exceed 50 characters''
      else if toLowerCase n \<in> set reservedNames then
        Some ([CHR 0x22] @ n @ [CHR 0x22] @ '' is a reserved category name'')
      else None)"

definition isHexDigit :: "char \<Rightarrow> bool" where
  "isHexDigit c =
     (let n = (of_char c :: nat) in (48 \<le> n \<and> n \<le> 57) \<or> (65 \<le> n \<and> n \<le> 70) \<or> (97 \<le> n \<and> n \<le> 102))"

text \<open>\<open>/^#?([A-Fa-f0-9]{6}|[A-Fa-f0-9]{3})$/\<close>\<close>

definition hexColorRegex :: "string \<Rightarrow> bool" where
  "hexColorRegex c =
     (let digits = (if startsWith c ''#'' then drop 1 c else c)
      in (length digits = 6 \<or> length digits = 3) \<and> list_all isHexDigit digits)"

definition validateColor :: "string \<Rightarrow> string option" where
  "validateColor c =
     (if c = [] then Some ''Color is required and must be a string''
      else if \<not> hexColorRegex c then
        Some ''Color must be a valid hex color code (e.g., #FF0000 or #F00)''
      else None)"

definition validateCategoryInput :: "CategoryInput \<Rightarrow> string list" where
  "validateCategoryInput input = errorList [validateName (name input), validateColor (color input)]"

definition isNameUnique :: "string \<Rightarrow> Category list \<Rightarrow> bool" where
  "isNameUnique n existingCategories =
     (\<not> list_ex (\<lambda>category. toLowerCase (name category) = toLowerCase n) existingCategories)"

text \<open>\<open>{ id: uuidv4(), todoCount: 0, ...input, color: normalizedColor }\<close>\<close>

definition createCategory :: "string \<Rightarrow> CategoryInput \<Rightarrow> Category" where
  "createCategory uuid input =
     \<lparr>name = name input,
      color = (if startsWith (color input) ''#'' then color input else ''#'' @ color input),
      catId = uuid, todoCount = 0\<rparr>"

section \<open>The data coordinator: \<open>TodoManager.ts\<close>\<close>

text \<open>
  The coordinator's fields, with the file system its \<open>FileManager\<close> works on. Every
  method returns its result or the error it throws, together with the state it leaves:
  a throw does not undo the assignments made before it. The clock reading \<open>now\<close> and
  the identifiers \<open>uuidv4()\<close> returns are inputs. Listeners and console output have no
  effect on the state and are left out.
\<close>

datatype TodoManagerError = TodoManagerError (errMessage: string) (errCode: string)

type_synonym 'a result = "TodoManagerError + 'a"

record TodoManagerConfig =
  cfg_fileManager :: "FileManagerConfig option"
  cfg_autoSave :: "bool option"
  cfg_createDefaultCategories :: "bool option"

record TodoManager =
  todos :: "Todo list"
  categories :: "Category list"
  fileManager :: FileManagerConfig
  disk :: fs
  config_autoSave :: bool
  config_createDefaultCategories :: bool
  isInitialized :: bool

text \<open>
  \<open>new FileManager(config)\<close>: \<open>{ ...DEFAULT_CONFIG, ...config }\<close>, an absent optional
  property keeping its default, and the backup directory made when backups are on.
\<close>

definition newFileManager :: "FileManagerConfig \<Rightarrow> FileManagerConfig" where
  "newFileManager config =
     \<lparr>dataPath = dataPath config,
      backupPath = (case backupPath config of None \<Rightarrow> backupPath DEFAULT_CONFIG | Some p \<Rightarrow> Some p),
      autoBackup = autoBackup config,
      maxBackups = (case maxBackups config of None \<Rightarrow> maxBackups DEFAULT_CONFIG | Some n \<Rightarrow> Some n)\<rparr>"

definition ensureDirectoryExists :: "FileManagerConfig \<Rightarrow> fs \<Rightarrow> fs" where
  "ensureDirectoryExists cfg s =
     (if isSet (backupPath cfg) \<and> autoBackup cfg \<and> backupDir s = None
      then s\<lparr>backupDir := Some []\<rparr> else s)"

definition newTodoManager :: "TodoManagerConfig \<Rightarrow> fs \<Rightarrow> TodoManager" where
  "newTodoManager config s =
     (let fm = newFileManager
                 (case cfg_fileManager config of
                    None \<Rightarrow> \<lparr>dataPath = [], backupPath = None, autoBackup = False, maxBackups = None\<rparr>
                  | Some c \<Rightarrow> c)
      in \<lparr>todos = [], categories = [], fileManager = fm, disk = ensureDirectoryExists fm s,
          config_autoSave = (case cfg_autoSave config of None \<Rightarrow> True | Some b \<Rightarrow> b),
          config_createDefaultCategories =
            (case cfg_createDefaultCategories config of None \<Rightarrow> True | Some b \<Rightarrow> b),
          isInitialized = False\<rparr>)"

subsection \<open>Records as JavaScript objects\<close>

fun priorityString :: "Priority \<Rightarrow> string" where
  "priorityString LOW = ''low''"
| "priorityString MEDIUM = ''medium''"
| "priorityString HIGH = ''high''"

fun optional :: "string \<Rightarrow> ('a \<Rightarrow> jsval) \<Rightarrow> 'a option \<Rightarrow> (string \<times> jsval) list" where
  "optional k f None = []"
| "optional k f (Some x) = [(k, f x)]"

definition todoToJs :: "Todo \<Rightarrow> jsval" where
  "todoToJs t =
     VObj ([(''id'', VStr (todoId t)), (''createdAt'', VDate (createdAt t))]
           @ optional ''completedAt'' VDate (completedAt t)
           @ [(''title'', VStr (title t))]
           @ optional ''description'' VStr (description t)
           @ [(''completed'', VBool (completed t)),
              (''priority'', VStr (priorityString (priority t))),
              (''categoryId'', VStr (categoryId t))]
           @ optional ''dueDate'' VDate (dueDate t))"

definition categoryToJs :: "Category \<Rightarrow> jsval" where
  "categoryToJs c =
     VObj [(''id'', VStr (catId c)), (''todoCount'', VNum (todoCount c)),
           (''name'', VStr (name c)), (''color'', VStr (color c))]"

text \<open>
  \<open>this.todos = data.todos\<close> takes the loaded values as \<open>Todo[]\<close> without a check. The
  typed model reads them back field by field; a value that \<open>validateData\<close> lets through
  but that is no \<open>Todo\<close> or \<open>Category\<close> of the declared types has no counterpart here.
\<close>

fun asString :: "jsval \<Rightarrow> string option" where
  "asString (VStr s) = Some s"
| "asString v = None"

fun asBool :: "jsval \<Rightarrow> bool option" where
  "asBool (VBool b) = Some b"
| "asBool v = None"

fun asInt :: "jsval \<Rightarrow> int option" where
  "asInt (VNum i) = Some i"
| "asInt v = None"

fun asDate :: "jsval \<Rightarrow> jsdate option" where
  "asDate (VDate d) = Some d"
| "asDate v = None"

definition asPriority :: "jsval \<Rightarrow> Priority option" where
  "asPriority v =
     (if v = VStr ''low'' then Some LOW
      else if v = VStr ''medium'' then Some MEDIUM
      else if v = VStr ''high'' then Some HIGH
      else None)"

fun asOptional :: "(jsval \<Rightarrow> 'a option) \<Rightarrow> jsval \<Rightarrow> 'a option option" where
  "asOptional f VUndefined = Some None"
| "asOptional f v = map_option Some (f v)"

definition jsToTodo :: "jsval \<Rightarrow> Todo option" where
  "jsToTodo v =
     Option.bind (asString (getProp v ''id'')) (\<lambda>i.
     Option.bind (asString (getProp v ''title'')) (\<lambda>t.
     Option.bind (asOptional asString (getProp v ''description'')) (\<lambda>d.
     Option.bind (asBool (getProp v ''completed'')) (\<lambda>c.
     Option.bind (asPriority (getProp v ''priority'')) (\<lambda>p.
     Option.bind (asString (getProp v ''categoryId'')) (\<lambda>cid.
     Option.bind (asDate (getProp v ''createdAt'')) (\<lambda>cr.
     Option.bind (asOptional asDate (getProp v ''completedAt'')) (\<lambda>ca.
     Option.bind (asOptional asDate (getProp v ''dueDate'')) (\<lambda>du.
       Some \<lparr>title = t, description = d, completed = c, priority = p, categoryId = cid,
             dueDate = du, todoId = i, createdAt = cr, completedAt = ca\<rparr>)))))))))"

definition jsToCategory :: "jsval \<Rightarrow> Category option" where
  "jsToCategory v =
     Option.bind (asString (getProp v ''id'')) (\<lambda>i.
     Option.bind (asString (getProp v ''name'')) (\<lambda>n.
     Option.bind (asString (getProp v ''color'')) (\<lambda>c.
     Option.bind (asInt (getProp v ''todoCount'')) (\<lambda>k.
       Some \<lparr>name = n, color = c, catId = i, todoCount = k\<rparr>))))"

fun allSome :: "'a option list \<Rightarrow> 'a list option" where
  "allSome [] = Some []"
| "allSome (None # xs) = None"
| "allSome (Some x # xs) = map_option ((#) x) (allSome xs)"

subsection \<open>Guards, queries and persistence\<close>

definition notInitialized :: TodoManagerError where
  "notInitialized =
     TodoManagerError ''TodoManager must be initialized before use. Call initialize() first.''
       ''NOT_INITIALIZED''"

definition ensureInitialized :: "TodoManager \<Rightarrow> unit result" where
  "ensureInitialized m = (if isInitialized m then Inr () else Inl notInitialized)"

fun findIndex :: "('a \<Rightarrow> bool) \<Rightarrow> 'a list \<Rightarrow> nat option" where
  "findIndex P [] = None"
| "findIndex P (x # xs) = (if P x then Some 0 else map_option Suc (findIndex P xs))"

text \<open>\<open>xs.splice(i, 1)\<close>\<close>

definition splice1 :: "nat \<Rightarrow> 'a list \<Rightarrow> 'a list" where
  "splice1 i xs = take i xs @ drop (Suc i) xs"

definition getTodoById :: "string \<Rightarrow> TodoManager \<Rightarrow> Todo option result" where
  "getTodoById i m =
     (case ensureInitialized m of
        Inl e \<Rightarrow> Inl e
      | Inr u \<Rightarrow> Inr (find (\<lambda>todo. todoId todo = i) (todos m)))"

definition getAllTodos :: "TodoManager \<Rightarrow> Todo list result" where
  "getAllTodos m = (case ensureInitialized m of Inl e \<Rightarrow> Inl e | Inr u \<Rightarrow> Inr (todos m))"

definition getTodosByCategory :: "string \<Rightarrow> TodoManager \<Rightarrow> Todo list result" where
  "getTodosByCategory cid m =
     (case ensureInitialized m of
        Inl e \<Rightarrow> Inl e
      | Inr u \<Rightarrow> Inr (filter (\<lambda>todo. categoryId todo = cid) (todos m)))"

definition getTodosByStatus :: "bool \<Rightarrow> TodoManager \<Rightarrow> Todo list result" where
  "getTodosByStatus c m =
     (case ensureInitialized m of
        Inl e \<Rightarrow> Inl e
      | Inr u \<Rightarrow> Inr (filter (\<lambda>todo. completed todo = c) (todos m)))"

definition getOverdueTodos :: "string \<Rightarrow> TodoManager \<Rightarrow> Todo list result" where
  "getOverdueTodos now m =
     (case ensureInitialized m of
        Inl e \<Rightarrow> Inl e
      | Inr u \<Rightarrow> Inr (filter (isOverdue now) (todos m)))"

definition getTodosByPriority :: "Priority \<Rightarrow> TodoManager \<Rightarrow> Todo list result" where
  "getTodosByPriority p m =
     (case ensureInitialized m of
        Inl e \<Rightarrow> Inl e
      | Inr u \<Rightarrow> Inr (filter (\<lambda>todo. priority todo = p) (todos m)))"

text \<open>
  \<open>todo.description && todo.description.toLowerCase().includes(lowerQuery)\<close>: an absent
  and an empty description are both false.
\<close>

definition searchTodos :: "string \<Rightarrow> TodoManager \<Rightarrow> Todo list result" where
  "searchTodos query m =
     (case ensureInitialized m of
        Inl e \<Rightarrow> Inl e
      | Inr u \<Rightarrow>
          Inr (filter
                 (\<lambda>todo.
                    includesStr (toLowerCase (title todo)) (toLowerCase query) \<or>
                    (case description todo of
                       None \<Rightarrow> False
                     | Some d \<Rightarrow> d \<noteq> [] \<and> includesStr (toLowerCase d) (toLowerCase query)))
                 (todos m)))"

definition getCategoryById :: "string \<Rightarrow> TodoManager \<Rightarrow> Category option result" where
  "getCategoryById i m =
     (case ensureInitialized m of
        Inl e \<Rightarrow> Inl e
      | Inr u \<Rightarrow> Inr (find (\<lambda>cat. catId cat = i) (categories m)))"

definition getAllCategories :: "TodoManager \<Rightarrow> Category list result" where
  "getAllCategories m = (case ensureInitialized m of Inl e \<Rightarrow> Inl e | Inr u \<Rightarrow> Inr (categories m))"

definition categoryExists :: "string \<Rightarrow> TodoManager \<Rightarrow> bool result" where
  "categoryExists i m =
     (case ensureInitialized m of
        Inl e \<Rightarrow> Inl e
      | Inr u \<Rightarrow> Inr (list_ex (\<lambda>cat. catId cat = i) (categories m)))"

record Statistics =
  totalTodos :: nat
  completedTodos :: nat
  pendingTodos :: nat
  overdueTodos :: nat
  totalCategories :: nat
  priorityBreakdown :: "Priority \<Rightarrow> nat"

definition getStatistics :: "string \<Rightarrow> TodoManager \<Rightarrow> Statistics result" where
  "getStatistics now m =
     (case ensureInitialized m of
        Inl e \<Rightarrow> Inl e
      | Inr u \<Rightarrow>
          Inr \<lparr>totalTodos = length (todos m),
               completedTodos = length (filter completed (todos m)),
               pendingTodos = length (filter (\<lambda>t. \<not> completed t) (todos m)),
               overdueTodos = length (filter (isOverdue now) (todos m)),
               totalCategories = length (categories m),
               priorityBreakdown = (\<lambda>p. length (filter (\<lambda>todo. priority todo = p) (todos m)))\<rparr>)"

text \<open>\<open>TodoManager.save\<close>\<close>

definition saveData :: "string \<Rightarrow> TodoManager \<Rightarrow> unit result \<times> TodoManager" where
  "saveData now m =
     (case ensureInitialized m of
        Inl e \<Rightarrow> (Inl e, m)
      | Inr u \<Rightarrow>
          (case save (fileManager m) now (map todoToJs (todos m), map categoryToJs (categories m))
                  (disk m) of
             (Inl e, s) \<Rightarrow>
               (Inl (TodoManagerError (''Failed to save data: '' @ message e) ''SAVE_ERROR''),
                m\<lparr>disk := s\<rparr>)
           | (Inr v, s) \<Rightarrow> (Inr (), m\<lparr>disk := s\<rparr>)))"

text \<open>\<open>if (this.config.autoSave) { await this.save(); }\<close>\<close>

definition autoSave :: "string \<Rightarrow> TodoManager \<Rightarrow> unit result \<times> TodoManager" where
  "autoSave now m = (if config_autoSave m then saveData now m else (Inr (), m))"

text \<open>
  \<open>updateCategoryTodoCount\<close> assigns to the category that \<open>find\<close> returns, the first one
  with the identifier; the count comes from the public \<open>getTodosByCategory\<close>.
\<close>

definition updateCategoryTodoCount :: "string \<Rightarrow> TodoManager \<Rightarrow> unit result \<times> TodoManager" where
  "updateCategoryTodoCount cid m =
     (case findIndex (\<lambda>cat. catId cat = cid) (categories m) of
        None \<Rightarrow> (Inr (), m)
      | Some i \<Rightarrow>
          (case getTodosByCategory cid m of
             Inl e \<Rightarrow> (Inl e, m)
           | Inr ts \<Rightarrow>
               (Inr (),
                m\<lparr>categories :=
                    (categories m)[i := (categories m ! i)\<lparr>todoCount := int (length ts)\<rparr>]\<rparr>)))"

text \<open>The loop of \<open>updateCategoryTodoCounts\<close> over the categories still to visit.\<close>

fun recount :: "TodoManager \<Rightarrow> Category list \<Rightarrow> Category list result" where
  "recount m [] = Inr []"
| "recount m (category # rest) =
     (case getTodosByCategory (catId category) m of
        Inl e \<Rightarrow> Inl e
      | Inr ts \<Rightarrow>
          (case recount m rest of
             Inl e \<Rightarrow> Inl e
           | Inr rest' \<Rightarrow> Inr (category\<lparr>todoCount := int (length ts)\<rparr> # rest')))"

text \<open>
  A throw in the loop can only come from \<open>ensureInitialized\<close>, at the first category,
  before any count is assigned.
\<close>

definition updateCategoryTodoCounts :: "TodoManager \<Rightarrow> unit result \<times> TodoManager" where
  "updateCategoryTodoCounts m =
     (case recount m (categories m) of
        Inl e \<Rightarrow> (Inl e, m)
      | Inr cs \<Rightarrow> (Inr (), m\<lparr>categories := cs\<rparr>))"

subsection \<open>Todo operations\<close>

definition categoryNotFound :: "string \<Rightarrow> TodoManagerError" where
  "categoryNotFound cid =
     TodoManagerError (''Category with ID '' @ cid @ '' does not exist'') ''CATEGORY_NOT_FOUND''"

definition todoNotFound :: "string \<Rightarrow> TodoManagerError" where
  "todoNotFound i = TodoManagerError (''Todo with ID '' @ i @ '' not found'') ''TODO_NOT_FOUND''"

definition addTodo :: "string \<Rightarrow> string \<Rightarrow> TodoInput \<Rightarrow> TodoManager \<Rightarrow> Todo result \<times> TodoManager" where
  "addTodo now uuid input m =
     (case ensureInitialized m of
        Inl e \<Rightarrow> (Inl e, m)
      | Inr u \<Rightarrow>
          if validateTodoInput input \<noteq> [] then
            (Inl (TodoManagerError
                   (''Invalid todo input: '' @ join '', '' (validateTodoInput input))
                   ''VALIDATION_ERROR''), m)
          else
            (case categoryExists (categoryId input) m of
               Inl e \<Rightarrow> (Inl e, m)
             | Inr found \<Rightarrow>
                 if \<not> found then (Inl (categoryNotFound (categoryId input)), m)
                 else
                   (case updateCategoryTodoCount (categoryId input)
                           (m\<lparr>todos := todos m @ [createTodo now uuid input]\<rparr>) of
                      (Inl e, m2) \<Rightarrow> (Inl e, m2)
                    | (Inr u, m2) \<Rightarrow>
                        (case autoSave now m2 of
                           (Inl e, m3) \<Rightarrow> (Inl e, m3)
                         | (Inr u, m3) \<Rightarrow> (Inr (createTodo now uuid input), m3)))))"

text \<open>\<open>{ ...currentTodo, ...updates }\<close>\<close>

definition applyTodoUpdate :: "Todo \<Rightarrow> TodoUpdate \<Rightarrow> Todo" where
  "applyTodoUpdate t u =
     t\<lparr>title := (case upd_title u of None \<Rightarrow> title t | Some x \<Rightarrow> x),
       description := (case upd_description u of None \<Rightarrow> description t | Some x \<Rightarrow> x),
       completed := (case upd_completed u of None \<Rightarrow> completed t | Some x \<Rightarrow> x),
       priority := (case upd_priority u of None \<Rightarrow> priority t | Some x \<Rightarrow> x),
       categoryId := (case upd_categoryId u of None \<Rightarrow> categoryId t | Some x \<Rightarrow> x),
       completedAt := (case upd_completedAt u of None \<Rightarrow> completedAt t | Some x \<Rightarrow> x),
       dueDate := (case upd_dueDate u of None \<Rightarrow> dueDate t | Some x \<Rightarrow> x)\<rparr>"

text \<open>
  The checks of \<open>updateTodo\<close> on the supplied fields, in the order of the source: the
  first one that fails is the error thrown.
\<close>

definition validateTodoUpdate :: "TodoUpdate \<Rightarrow> TodoManager \<Rightarrow> unit result" where
  "validateTodoUpdate updates m =
     (case (case upd_title updates of None \<Rightarrow> None | Some t \<Rightarrow> validateTitle t) of
        Some err \<Rightarrow> Inl (TodoManagerError (''Invalid title: '' @ err) ''VALIDATION_ERROR'')
      | None \<Rightarrow>
     (case (case upd_description updates of Some (Some d) \<Rightarrow> validateDescription (Some d) | _ \<Rightarrow> None) of
        Some err \<Rightarrow> Inl (TodoManagerError (''Invalid description: '' @ err) ''VALIDATION_ERROR'')
      | None \<Rightarrow>
     (case (case upd_priority updates of None \<Rightarrow> None | Some p \<Rightarrow> validatePriority p) of
        Some err \<Rightarrow> Inl (TodoManagerError (''Invalid priority: '' @ err) ''VALIDATION_ERROR'')
      | None \<Rightarrow>
     (case upd_categoryId updates of
        None \<Rightarrow> Inr ()
      | Some cid \<Rightarrow>
          (case categoryExists cid m of
             Inl e \<Rightarrow> Inl e
           | Inr found \<Rightarrow> if found then Inr () else Inl (categoryNotFound cid))))))"

text \<open>\<open>// Handle completion status changes\<close>: the assignment to \<open>updates.completedAt\<close>.\<close>

definition handleCompletion :: "string \<Rightarrow> Todo \<Rightarrow> TodoUpdate \<Rightarrow> TodoUpdate" where
  "handleCompletion now currentTodo updates =
     (case upd_completed updates of
        None \<Rightarrow> updates
      | Some c \<Rightarrow>
          if c \<noteq> completed currentTodo then
            (if c then updates\<lparr>upd_completedAt := Some (Some (Date now))\<rparr>
             else updates\<lparr>upd_completedAt := Some None\<rparr>)
          else updates)"

definition updateTodo :: "string \<Rightarrow> string \<Rightarrow> TodoUpdate \<Rightarrow> TodoManager \<Rightarrow> bool result \<times> TodoManager" where
  "updateTodo now i updates m =
     (case ensureInitialized m of
        Inl e \<Rightarrow> (Inl e, m)
      | Inr u \<Rightarrow>
          (case findIndex (\<lambda>todo. todoId todo = i) (todos m) of
             None \<Rightarrow> (Inl (todoNotFound i), m)
           | Some todoIndex \<Rightarrow>
               (case validateTodoUpdate updates m of
                  Inl e \<Rightarrow> (Inl e, m)
                | Inr u \<Rightarrow>
                    (let currentTodo = todos m ! todoIndex;
                         oldCategoryId = categoryId currentTodo;
                         updatedTodo = applyTodoUpdate currentTodo (handleCompletion now currentTodo updates);
                         m1 = m\<lparr>todos := (todos m)[todoIndex := updatedTodo]\<rparr>
                     in case (case upd_categoryId updates of
                                None \<Rightarrow> (Inr (), m1)
                              | Some cid \<Rightarrow>
                                  if cid \<noteq> oldCategoryId then
                                    (case updateCategoryTodoCount oldCategoryId m1 of
                                       (Inl e, m2) \<Rightarrow> (Inl e, m2)
                                     | (Inr u, m2) \<Rightarrow> updateCategoryTodoCount cid m2)
                                  else (Inr (), m1)) of
                          (Inl e, m3) \<Rightarrow> (Inl e, m3)
                        | (Inr u, m3) \<Rightarrow>
                            (case autoSave now m3 of
                               (Inl e, m4) \<Rightarrow> (Inl e, m4)
                             | (Inr u, m4) \<Rightarrow> (Inr True, m4))))))"

definition deleteTodo :: "string \<Rightarrow> string \<Rightarrow> TodoManager \<Rightarrow> bool result \<times> TodoManager" where
  "deleteTodo now i m =
     (case ensureInitialized m of
        Inl e \<Rightarrow> (Inl e, m)
      | Inr u \<Rightarrow>
          (case findIndex (\<lambda>todo. todoId todo = i) (todos m) of
             None \<Rightarrow> (Inl (todoNotFound i), m)
           | Some todoIndex \<Rightarrow>
               (case updateCategoryTodoCount (categoryId (todos m ! todoIndex))
                       (m\<lparr>todos := splice1 todoIndex (todos m)\<rparr>) of
                  (Inl e, m2) \<Rightarrow> (Inl e, m2)
                | (Inr u, m2) \<Rightarrow>
                    (case autoSave now m2 of
                       (Inl e, m3) \<Rightarrow> (Inl e, m3)
                     | (Inr u, m3) \<Rightarrow> (Inr True, m3)))))"

definition toggleTodoCompletion :: "string \<Rightarrow> string \<Rightarrow> TodoManager \<Rightarrow> bool result \<times> TodoManager" where
  "toggleTodoCompletion now i m =
     (case ensureInitialized m of
        Inl e \<Rightarrow> (Inl e, m)
      | Inr u \<Rightarrow>
          (case getTodoById i m of
             Inl e \<Rightarrow> (Inl e, m)
           | Inr None \<Rightarrow> (Inl (todoNotFound i), m)
           | Inr (Some todo) \<Rightarrow>
               updateTodo now i (noUpdate\<lparr>upd_completed := Some (\<not> completed todo)\<rparr>) m))"

subsection \<open>Category operations\<close>

definition duplicateCategoryName :: "string \<Rightarrow> TodoManagerError" where
  "duplicateCategoryName n =
     TodoManagerError (''Category name '' @ [CHR 0x22] @ n @ [CHR 0x22] @ '' already exists'')
       ''DUPLICATE_CATEGORY_NAME''"

definition categoryIdNotFound :: "string \<Rightarrow> TodoManagerError" where
  "categoryIdNotFound i =
     TodoManagerError (''Category with ID '' @ i @ '' not found'') ''CATEGORY_NOT_FOUND''"

definition addCategory :: "string \<Rightarrow> string \<Rightarrow> CategoryInput \<Rightarrow> TodoManager \<Rightarrow> Category result \<times> TodoManager" where
  "addCategory now uuid input m =
     (case ensureInitialized m of
        Inl e \<Rightarrow> (Inl e, m)
      | Inr u \<Rightarrow>
          if validateCategoryInput input \<noteq> [] then
            (Inl (TodoManagerError
                   (''Invalid category input: '' @ join '', '' (validateCategoryInput input))
                   ''VALIDATION_ERROR''), m)
          else if \<not> isNameUnique (name input) (categories m) then
            (Inl (duplicateCategoryName (name input)), m)
          else
            (case autoSave now (m\<lparr>categories := categories m @ [createCategory uuid input]\<rparr>) of
               (Inl e, m2) \<Rightarrow> (Inl e, m2)
             | (Inr u, m2) \<Rightarrow> (Inr (createCategory uuid input), m2)))"

text \<open>\<open>{ ...currentCategory, ...updates, todoCount: currentCategory.todoCount }\<close>\<close>

definition applyCategoryUpdate :: "Category \<Rightarrow> CategoryUpdate \<Rightarrow> Category" where
  "applyCategoryUpdate c u =
     c\<lparr>name := (case upd_name u of None \<Rightarrow> name c | Some x \<Rightarrow> x),
       color := (case upd_color u of None \<Rightarrow> color c | Some x \<Rightarrow> x),
       todoCount := todoCount c\<rparr>"

definition validateCategoryUpdate :: "string \<Rightarrow> CategoryUpdate \<Rightarrow> TodoManager \<Rightarrow> unit result" where
  "validateCategoryUpdate i updates m =
     (case (case upd_name updates of
              None \<Rightarrow> Inr ()
            | Some n \<Rightarrow>
                (case validateName n of
                   Some err \<Rightarrow>
                     Inl (TodoManagerError (''Invalid category name: '' @ err) ''VALIDATION_ERROR'')
                 | None \<Rightarrow>
                     if \<not> isNameUnique n (filter (\<lambda>cat. catId cat \<noteq> i) (categories m))
                     then Inl (duplicateCategoryName n) else Inr ())) of
        Inl e \<Rightarrow> Inl e
      | Inr u \<Rightarrow>
          (case (case upd_color updates of None \<Rightarrow> None | Some c \<Rightarrow> validateColor c) of
             Some err \<Rightarrow>
               Inl (TodoManagerError (''Invalid category color: '' @ err) ''VALIDATION_ERROR'')
           | None \<Rightarrow> Inr ()))"

definition updateCategory :: "string \<Rightarrow> string \<Rightarrow> CategoryUpdate \<Rightarrow> TodoManager \<Rightarrow> bool result \<times> TodoManager" where
  "updateCategory now i updates m =
     (case ensureInitialized m of
        Inl e \<Rightarrow> (Inl e, m)
      | Inr u \<Rightarrow>
          (case findIndex (\<lambda>cat. catId cat = i) (categories m) of
             None \<Rightarrow> (Inl (categoryIdNotFound i), m)
           | Some categoryIndex \<Rightarrow>
               (case validateCategoryUpdate i updates m of
                  Inl e \<Rightarrow> (Inl e, m)
                | Inr u \<Rightarrow>
                    (case autoSave now
                            (m\<lparr>categories :=
                                 (categories m)
                                   [categoryIndex :=
                                      applyCategoryUpdate (categories m ! categoryIndex) updates]\<rparr>) of
                       (Inl e, m2) \<Rightarrow> (Inl e, m2)
                     | (Inr u, m2) \<Rightarrow> (Inr True, m2)))))"

text \<open>The two loops of \<open>deleteCategory\<close> over the todos found in the category.\<close>

fun moveTodos :: "string \<Rightarrow> string \<Rightarrow> Todo list \<Rightarrow> TodoManager \<Rightarrow> unit result \<times> TodoManager" where
  "moveTodos now target [] m = (Inr (), m)"
| "moveTodos now target (todo # rest) m =
     (case updateTodo now (todoId todo) (noUpdate\<lparr>upd_categoryId := Some target\<rparr>) m of
        (Inl e, m') \<Rightarrow> (Inl e, m')
      | (Inr b, m') \<Rightarrow> moveTodos now target rest m')"

fun deleteTodos :: "string \<Rightarrow> Todo list \<Rightarrow> TodoManager \<Rightarrow> unit result \<times> TodoManager" where
  "deleteTodos now [] m = (Inr (), m)"
| "deleteTodos now (todo # rest) m =
     (case deleteTodo now (todoId todo) m of
        (Inl e, m') \<Rightarrow> (Inl e, m')
      | (Inr b, m') \<Rightarrow> deleteTodos now rest m')"

text \<open>\<open>// Handle todos in the category\<close>\<close>

definition resolveTodos :: "string \<Rightarrow> string option \<Rightarrow> Todo list \<Rightarrow> TodoManager \<Rightarrow> unit result \<times> TodoManager" where
  "resolveTodos now moveTosCategoryId todosInCategory m =
     (if todosInCategory \<noteq> [] then
        (if isSet moveTosCategoryId then
           (case categoryExists (the moveTosCategoryId) m of
              Inl e \<Rightarrow> (Inl e, m)
            | Inr found \<Rightarrow>
                if \<not> found then
                  (Inl (TodoManagerError
                         (''Target category with ID '' @ the moveTosCategoryId @ '' does not exist'')
                         ''CATEGORY_NOT_FOUND''), m)
                else moveTodos now (the moveTosCategoryId) todosInCategory m)
         else deleteTodos now todosInCategory m)
      else (Inr (), m))"

definition deleteCategory :: "string \<Rightarrow> string \<Rightarrow> string option \<Rightarrow> TodoManager \<Rightarrow> bool result \<times> TodoManager" where
  "deleteCategory now i moveTosCategoryId m =
     (case ensureInitialized m of
        Inl e \<Rightarrow> (Inl e, m)
      | Inr u \<Rightarrow>
          (case findIndex (\<lambda>cat. catId cat = i) (categories m) of
             None \<Rightarrow> (Inl (categoryIdNotFound i), m)
           | Some categoryIndex \<Rightarrow>
               (case getTodosByCategory i m of
                  Inl e \<Rightarrow> (Inl e, m)
                | Inr todosInCategory \<Rightarrow>
                    (case resolveTodos now moveTosCategoryId todosInCategory m of
                       (Inl e, m1) \<Rightarrow> (Inl e, m1)
                     | (Inr u, m1) \<Rightarrow>
                         (case autoSave now (m1\<lparr>categories := splice1 categoryIndex (categories m1)\<rparr>) of
                            (Inl e, m2) \<Rightarrow> (Inl e, m2)
                          | (Inr u, m2) \<Rightarrow> (Inr True, m2))))))"

subsection \<open>Initialization\<close>

text \<open>
  \<open>createDefaultCategories\<close>: each \<open>addCategory\<close> sits in its own \<open>try\<close>, whose \<open>catch\<close>
  only warns; \<open>uuidv4 k\<close> is the identifier drawn for the \<open>k\<close>-th default.
\<close>

fun createDefaults :: "string \<Rightarrow> (nat \<Rightarrow> string) \<Rightarrow> nat \<Rightarrow> CategoryInput list \<Rightarrow> TodoManager \<Rightarrow> TodoManager" where
  "createDefaults now uuidv4 k [] m = m"
| "createDefaults now uuidv4 k (categoryInput # rest) m =
     createDefaults now uuidv4 (Suc k) rest (snd (addCategory now (uuidv4 k) categoryInput m))"

definition createDefaultCategories :: "string \<Rightarrow> (nat \<Rightarrow> string) \<Rightarrow> TodoManager \<Rightarrow> TodoManager" where
  "createDefaultCategories now uuidv4 m = createDefaults now uuidv4 0 DEFAULT_CATEGORIES m"

definition initializationError :: "string \<Rightarrow> TodoManagerError" where
  "initializationError msg =
     TodoManagerError (''Failed to initialize TodoManager: '' @ msg) ''INITIALIZATION_ERROR''"

text \<open>The outcome the typed model gives a load of values outside the declared types.\<close>

definition outsideTypes :: TodoManagerError where
  "outsideTypes = TodoManagerError ''loaded values are outside the declared types'' ''UNTYPED''"

definition initialize :: "string \<Rightarrow> (nat \<Rightarrow> string) \<Rightarrow> TodoManager \<Rightarrow> unit result \<times> TodoManager" where
  "initialize now uuidv4 m =
     (case load (fileManager m) (disk m) of
        Inl e \<Rightarrow> (Inl (initializationError (message e)), m)
      | Inr data \<Rightarrow>
          (case (allSome (map jsToTodo (fst data)), allSome (map jsToCategory (snd data))) of
             (Some ts, Some cs) \<Rightarrow>
               (let m1 = m\<lparr>todos := ts, categories := cs\<rparr>;
                    m2 = (if categories m1 = [] \<and> config_createDefaultCategories m1
                          then createDefaultCategories now uuidv4 m1 else m1)
                in case updateCategoryTodoCounts m2 of
                     (Inl e, m3) \<Rightarrow> (Inl (initializationError (errMessage e)), m3)
                   | (Inr u, m3) \<Rightarrow> (Inr (), m3\<lparr>isInitialized := True\<rparr>))
           | _ \<Rightarrow> (Inl outsideTypes, m)))"

section \<open>Test data\<close>

definition defaultManagerConfig :: TodoManagerConfig where
  "defaultManagerConfig =
     \<lparr>cfg_fileManager = None, cfg_autoSave = None, cfg_createDefaultCategories = None\<rparr>"

definition emptyDisk :: fs where
  "emptyDisk = \<lparr>dataFile = None, tempFile = None, backupDir = None\<rparr>"

definition clock0 :: string where
  "clock0 = ''2024-01-01T00:00:00.000Z''"

definition clock1 :: string where
  "clock1 = ''2024-01-02T00:00:00.000Z''"

definition uuids :: "nat \<Rightarrow> string" where
  "uuids k = ''id-'' @ decimal k"

definition milk :: Todo where
  "milk = \<lparr>title = ''Buy milk'', description = None, completed = False, priority = HIGH,
           categoryId = ''c-1'', dueDate = None, todoId = ''t-1'', createdAt = Date clock0,
           completedAt = None\<rparr>"

definition work :: Category where
  "work = \<lparr>name = ''Work'', color = ''#2ecc71'', catId = ''c-1'', todoCount = 1\<rparr>"

definition noBackups :: FileManagerConfig where
  "noBackups = \<lparr>dataPath = ''./data/todos.json'', backupPath = None, autoBackup = False, maxBackups = None\<rparr>"

definition oldDisk :: fs where
  "oldDisk =
     \<lparr>dataFile = Some (JsonText (JObj [(''todos'', JArr []), (''categories'', JArr []),
                                         (''version'', JStr ''1.0.0''),
                                         (''lastModified'', JStr clock0)])),
      tempFile = None, backupDir = Some []\<rparr>"

definition testManager :: "bool \<Rightarrow> Todo list \<Rightarrow> Category list \<Rightarrow> TodoManager" where
  "testManager saving ts cs =
     \<lparr>todos = ts, categories = cs, fileManager = noBackups, disk = emptyDisk,
      config_autoSave = saving, config_createDefaultCategories = True, isInitialized = True\<rparr>"

definition milkCaps :: Todo where
  "milkCaps = milk\<lparr>title := ''Buy Milk''\<rparr>"

definition categoriesOnly :: json where
  "categoriesOnly =
     JObj [(''todos'', JArr []),
           (''categories'', JArr [JObj [(''id'', JStr ''c-1''), (''todoCount'', JNum 0),
                                        (''name'', JStr ''Work''), (''color'', JStr ''#2ecc71'')]]),
           (''version'', JStr ''1.0.0''), (''lastModified'', JStr clock1)]"

definition corruptDisk :: "(string \<times> filetext) list \<Rightarrow> fs" where
  "corruptDisk backups = \<lparr>dataFile = Some Garbled, tempFile = None, backupDir = Some backups\<rparr>"

definition twoBackups :: "(string \<times> filetext) list" where
  "twoBackups =
     [(backupFileName clock1, JsonText categoriesOnly), (''notes.txt'', Blank),
      (backupFileName clock0, Garbled)]"

definition clock2 :: string where
  "clock2 = ''2024-01-03T00:00:00.000Z''"

definition keepTwo :: FileManagerConfig where
  "keepTwo = DEFAULT_CONFIG\<lparr>maxBackups := Some 2\<rparr>"

definition keepNone :: FileManagerConfig where
  "keepNone = DEFAULT_CONFIG\<lparr>maxBackups := Some 0\<rparr>"

definition oldText :: filetext where
  "oldText = JsonText (JObj [(''todos'', JArr []), (''categories'', JArr []),
                             (''version'', JStr ''1.0.0''), (''lastModified'', JStr clock0)])"

definition milkInput :: TodoInput where
  "milkInput = \<lparr>title = ''Buy milk'', description = None, completed = False, priority = HIGH,
                categoryId = ''c-1'', dueDate = None\<rparr>"

definition home :: Category where
  "home = \<lparr>name = ''Home'', color = ''#3498db'', catId = ''c-2'', todoCount = 0\<rparr>"

definition twoCategories :: TodoManager where
  "twoCategories = testManager False [] [work\<lparr>todoCount := 0\<rparr>, home]"

definition stampOnly :: TodoUpdate where
  "stampOnly = noUpdate\<lparr>upd_completedAt := Some (Some (Date clock1))\<rparr>"

section \<open>Notions used in the properties\<close>

text \<open>What \<open>toJSON\<close> and the serializer leave of a date in the JSON text.\<close>

fun dateJson :: "jsdate \<Rightarrow> json" where
  "dateJson (Date s) = JStr s"
| "dateJson InvalidDate = JNull"

text \<open>The \<open>n\<close> most recent of a list of file names: the first \<open>n\<close> in descending order.\<close>

definition newest :: "nat \<Rightarrow> string list \<Rightarrow> string list" where
  "newest n names = take n (rev (sort names))"

text \<open>\<open>K\<close> holds the \<open>n\<close> greatest elements of \<open>S\<close> (all of \<open>S\<close> when it has fewer).\<close>

definition greatest :: "nat \<Rightarrow> string set \<Rightarrow> string set \<Rightarrow> bool" where
  "greatest n K S = (K \<subseteq> S \<and> card K = min n (card S) \<and> (\<forall>k \<in> K. \<forall>x \<in> S - K. x < k))"

text \<open>The backup files in the backup directory, and a run of backups one after another.\<close>

definition backupNames :: "fs \<Rightarrow> string list" where
  "backupNames s = (case backupDir s of None \<Rightarrow> [] | Some es \<Rightarrow> filter isBackupName (map fst es))"

definition backups :: "FileManagerConfig \<Rightarrow> string list \<Rightarrow> fs \<Rightarrow> fs" where
  "backups cfg clock s = foldl (\<lambda>s' now. manualBackup cfg now s') s clock"

text \<open>The completion invariant of a todo, and the count invariant of a coordinator.\<close>

definition completionConsistent :: "Todo \<Rightarrow> bool" where
  "completionConsistent t = ((completedAt t \<noteq> None) = completed t)"

definition countOf :: "TodoManager \<Rightarrow> string \<Rightarrow> int" where
  "countOf m cid = int (length (filter (\<lambda>t. categoryId t = cid) (todos m)))"

definition countsConsistent :: "TodoManager \<Rightarrow> bool" where
  "countsConsistent m = (\<forall>c \<in> set (categories m). todoCount c = countOf m (catId c))"

text \<open>Counts are right for every category whose identifier is not in \<open>A\<close>.\<close>

definition countsConsistentExcept :: "string set \<Rightarrow> TodoManager \<Rightarrow> bool" where
  "countsConsistentExcept A m =
     (\<forall>c \<in> set (categories m). catId c \<notin> A \<longrightarrow> todoCount c = countOf m (catId c))"

text \<open>What \<open>updateTodo\<close> makes of the todo at index \<open>k\<close>, and the state it has reached
  when it turns to saving.\<close>

definition updatedTodo :: "string \<Rightarrow> nat \<Rightarrow> TodoUpdate \<Rightarrow> TodoManager \<Rightarrow> Todo" where
  "updatedTodo now k updates m =
     applyTodoUpdate (todos m ! k) (handleCompletion now (todos m ! k) updates)"

definition afterUpdate :: "string \<Rightarrow> nat \<Rightarrow> TodoUpdate \<Rightarrow> TodoManager \<Rightarrow> TodoManager" where
  "afterUpdate now k updates m =
     (let m1 = m\<lparr>todos := (todos m)[k := updatedTodo now k updates m]\<rparr> in
      case upd_categoryId updates of
        None \<Rightarrow> m1
      | Some cid \<Rightarrow>
          if cid \<noteq> categoryId (todos m ! k)
          then snd (updateCategoryTodoCount cid
                      (snd (updateCategoryTodoCount (categoryId (todos m ! k)) m1)))
          else m1)"

definition countsInvariant :: "TodoManager \<Rightarrow> bool" where
  "countsInvariant m = (countsConsistent m \<and> distinct (map catId (categories m)))"

text \<open>The mutating operations of the coordinator, and the state one of them leaves,
  whether it returns or throws.\<close>

datatype operation =
    AddTodo string TodoInput
  | UpdateTodo string TodoUpdate
  | DeleteTodo string
  | ToggleTodoCompletion string
  | AddCategory string CategoryInput
  | UpdateCategory string CategoryUpdate
  | DeleteCategory string "string option"

fun perform :: "string \<Rightarrow> operation \<Rightarrow> TodoManager \<Rightarrow> TodoManager" where
  "perform now (AddTodo uuid input) m = snd (addTodo now uuid input m)"
| "perform now (UpdateTodo i updates) m = snd (updateTodo now i updates m)"
| "perform now (DeleteTodo i) m = snd (deleteTodo now i m)"
| "perform now (ToggleTodoCompletion i) m = snd (toggleTodoCompletion now i m)"
| "perform now (AddCategory uuid input) m = snd (addCategory now uuid input m)"
| "perform now (UpdateCategory i updates) m = snd (updateCategory now i updates m)"
| "perform now (DeleteCategory i moveTo) m = snd (deleteCategory now i moveTo m)"

text \<open>The identifier \<open>uuidv4()\<close> hands to a new category is not in use.\<close>

fun freshFor :: "operation \<Rightarrow> TodoManager \<Rightarrow> bool" where
  "freshFor (AddCategory uuid input) m =
     (uuid \<notin> catId ` set (categories m) \<and> uuid \<notin> categoryId ` set (todos m))"
| "freshFor op m = True"

text \<open>The records pass the structural validation of \<open>save\<close>: no required string is empty.\<close>

definition storable :: "TodoManager \<Rightarrow> bool" where
  "storable m =
     ((\<forall>t \<in> set (todos m). todoId t \<noteq> [] \<and> title t \<noteq> [] \<and> categoryId t \<noteq> [])
      \<and> (\<forall>c \<in> set (categories m). catId c \<noteq> [] \<and> name c \<noteq> [] \<and> color c \<noteq> []))"

section \<open>Initialization without a data file\<close>

lemma addCategory_uninitialized:
  "\<not> isInitialized m \<Longrightarrow> addCategory now uuid input m = (Inl notInitialized, m)"
  by (simp add: addCategory_def ensureInitialized_def)

lemma createDefaults_uninitialized:
  "\<not> isInitialized m \<Longrightarrow> createDefaults now uuidv4 k inputs m = m"
  by (induction inputs arbitrary: k) (simp_all add: addCategory_uninitialized)

lemma load_no_file: "dataFile s = None \<Longrightarrow> load cfg s = Inr ([], [])"
  by (simp add: load_def loadTry_def createEmptyData_def)

lemma dataFile_ensureDirectoryExists: "dataFile (ensureDirectoryExists cfg s) = dataFile s"
  by (simp add: ensureDirectoryExists_def)

lemma initialize_fresh:
  assumes "dataFile s = None"
  shows "initialize now uuidv4 (newTodoManager config s)
           = (Inr (), (newTodoManager config s)\<lparr>isInitialized := True\<rparr>)"
proof -
  let ?m = "newTodoManager config s"
  have f: "dataFile (disk ?m) = None"
    using assms by (simp add: newTodoManager_def Let_def dataFile_ensureDirectoryExists)
  have u: "\<not> isInitialized ?m" and e: "todos ?m = []" "categories ?m = []"
    by (simp_all add: newTodoManager_def Let_def)
  show ?thesis
    using u e
    by (simp add: initialize_def load_no_file [OF f] Let_def createDefaultCategories_def
        createDefaults_uninitialized updateCategoryTodoCounts_def)
qed

text \<open>
  C1. A coordinator is constructed over a store without a data file, with the
  create-default-categories flag enabled (absent or true in its configuration).
  \<open>initialize()\<close> returns, and \<open>getStatistics().totalTodos\<close> is 0, but the category set
  is empty: each \<open>addCategory\<close> of \<open>createDefaultCategories\<close> runs before
  \<open>isInitialized\<close> is set, throws \<open>NOT_INITIALIZED\<close> at its \<open>ensureInitialized()\<close>, and the
  \<open>catch\<close> around it only warns. None of the four starter categories exists.
\<close>

theorem initialize_creates_no_default_categories:
  assumes "dataFile s = None" and "cfg_createDefaultCategories config \<noteq> Some False"
  shows "fst (initialize now uuidv4 (newTodoManager config s)) = Inr ()
         \<and> config_createDefaultCategories (newTodoManager config s)
         \<and> isInitialized (snd (initialize now uuidv4 (newTodoManager config s)))
         \<and> categories (snd (initialize now uuidv4 (newTodoManager config s))) = []
         \<and> map_sum errCode totalTodos
             (getStatistics now' (snd (initialize now uuidv4 (newTodoManager config s)))) = Inr 0"
proof -
  have "config_createDefaultCategories (newTodoManager config s)"
    using assms(2) by (cases "cfg_createDefaultCategories config") (simp_all add: newTodoManager_def Let_def)
  moreover have "todos (newTodoManager config s) = []" "categories (newTodoManager config s) = []"
    by (simp_all add: newTodoManager_def Let_def)
  ultimately show ?thesis
    by (simp add: initialize_fresh [OF assms(1)] getStatistics_def ensureInitialized_def)
qed

theorem initialize_creates_no_default_categories_witness:
  "dataFile emptyDisk = None \<and> cfg_createDefaultCategories defaultManagerConfig \<noteq> Some False
   \<and> fst (initialize clock0 uuids (newTodoManager defaultManagerConfig emptyDisk)) = Inr ()
   \<and> categories (snd (initialize clock0 uuids (newTodoManager defaultManagerConfig emptyDisk))) = []"
proof -
  have h1: "dataFile emptyDisk = None" by (simp add: emptyDisk_def)
  have h2: "cfg_createDefaultCategories defaultManagerConfig \<noteq> Some False"
    by (simp add: defaultManagerConfig_def)
  from initialize_creates_no_default_categories [OF h1 h2] h1 h2 show ?thesis by blast
qed

section \<open>Round trip of \<open>save\<close> and \<open>load\<close>\<close>

lemma serializeProperty_date:
  "serializeProperty (Suc n) dateSerializer k (VDate d) = Inr (Some (dateJson d))"
  by (cases d) simp_all

lemma serializeMembers_date:
  "serializeMembers (Suc n) dateSerializer kvs = Inr ms \<Longrightarrow> map_of kvs k = Some (VDate d)
   \<Longrightarrow> map_of ms k = Some (dateJson d)"
proof (induction kvs arbitrary: ms)
  case Nil
  then show ?case by simp
next
  case (Cons kv kvs)
  obtain k' x where kv: "kv = (k', x)" by (cases kv)
  show ?case
  proof (cases "k' = k")
    case True
    with Cons.prems kv show ?thesis
      by (auto simp: serializeProperty_date simp del: serializeProperty.simps split: sum.splits)
  next
    case False
    with Cons.prems kv have m: "map_of kvs k = Some (VDate d)" by simp
    from Cons.prems(1) kv False Cons.IH [OF _ m] show ?thesis
      by (auto simp del: serializeProperty.simps split: sum.splits option.splits)
  qed
qed

lemma internalize_dateJson: "internalize dateDeserializer k (dateJson d) \<noteq> VUndefined"
  "\<not> isDate (internalize dateDeserializer k (dateJson d))"
  by (cases d; simp)+

lemma internalizeMembers_key:
  "map_of ms k = Some j \<Longrightarrow> internalize r k j \<noteq> VUndefined
   \<Longrightarrow> map_of (internalizeMembers r ms) k = Some (internalize r k j)"
proof (induction ms)
  case Nil
  then show ?case by simp
next
  case (Cons kj ms)
  obtain k' j' where kj: "kj = (k', j')" by (cases kj)
  show ?case
  proof (cases "k' = k")
    case True
    with Cons.prems kj show ?thesis by (cases "internalize r k j") simp_all
  next
    case False
    with Cons kj show ?thesis by (cases "internalize r k' j'") simp_all
  qed
qed

lemma validateTodo_needs_date:
  "\<not> isDate (getProp v ''createdAt'') \<Longrightarrow> \<exists>e. validateTodo v = Inl e"
  by (simp add: validateTodo_def)

lemma validateTodo_object:
  assumes "validateTodo t = Inr ()"
  shows "\<exists>kvs d. t = VObj kvs \<and> map_of kvs ''createdAt'' = Some (VDate d)"
proof -
  from assms have i: "isNonEmptyString (getProp t ''id'')" and c: "isDate (getProp t ''createdAt'')"
    by (auto simp: validateTodo_def split: if_splits)
  from i obtain kvs where t: "t = VObj kvs" by (cases t) auto
  from c t obtain d where "map_of kvs ''createdAt'' = Some (VDate d)"
    by (cases "map_of kvs ''createdAt''"; cases "getProp t ''createdAt''"; auto)
  with t show ?thesis by blast
qed

text \<open>A todo that went through \<open>JSON.stringify\<close> and \<open>JSON.parse\<close> no longer validates.\<close>
lemma revived_todo_invalid':
  assumes "validateTodo t = Inr ()"
    and "serializeProperty (Suc (Suc n)) dateSerializer k t = Inr r"
  shows "\<exists>j. r = Some j \<and> (\<exists>e. validateTodo (internalize dateDeserializer k' j) = Inl e)"
proof -
  from validateTodo_object [OF assms(1)] obtain kvs d
    where t: "t = VObj kvs" and c: "map_of kvs ''createdAt'' = Some (VDate d)" by blast
  from assms(2) t obtain ms where ms: "serializeMembers (Suc n) dateSerializer kvs = Inr ms"
    and r: "r = Some (JObj ms)"
    by (auto split: sum.splits)
  from serializeMembers_date [OF ms c] have "map_of ms ''createdAt'' = Some (dateJson d)" .
  from internalizeMembers_key [OF this internalize_dateJson(1)]
  have cr: "map_of (internalizeMembers dateDeserializer ms) ''createdAt''
              = Some (internalize dateDeserializer ''createdAt'' (dateJson d))" .
  let ?v = "internalize dateDeserializer k' (JObj ms)"
  have "\<not> isDate (getProp ?v ''createdAt'')"
    using cr internalize_dateJson(2) [of "''createdAt''" d]
    by (cases "map_of (internalizeMembers dateDeserializer ms) ''__date''") simp_all
  from validateTodo_needs_date [OF this] r show ?thesis by blast
qed

lemma revived_todo_invalid:
  assumes "validateTodo t = Inr ()" and "1 < n"
    and "serializeProperty n dateSerializer k t = Inr r"
  shows "\<exists>j. r = Some j \<and> (\<exists>e. validateTodo (internalize dateDeserializer k' j) = Inl e)"
proof -
  from assms(2) obtain n' where "n = Suc (Suc n')" by (cases n; simp; rename_tac m; case_tac m; simp)
  with assms(3) revived_todo_invalid' [OF assms(1), of n' k r k'] show ?thesis by simp
qed

lemma save_result:
  "save cfg now data s =
     (case serialized now data of
        Inl e \<Rightarrow> (Inl (saveError e), if autoBackup cfg then createBackup cfg now s else s)
      | Inr content \<Rightarrow> (Inr (), (if autoBackup cfg then createBackup cfg now s else s)\<lparr>dataFile := Some content, tempFile := None\<rparr>))"
  by (simp add: save_def Let_def rename_def writeFile_def split: sum.splits)

lemma serializeProperty_array:
  "0 < n \<Longrightarrow> serializeProperty n dateSerializer k (VArr xs) =
     (case serializeElements (n - 1) dateSerializer 0 xs of Inl e \<Rightarrow> Inl e | Inr js \<Rightarrow> Inr (Some (JArr js)))"
  by (cases n) simp_all

lemma serializeProperty_object:
  "0 < n \<Longrightarrow> serializeProperty n dateSerializer k (VObj kvs) =
     (case serializeMembers (n - 1) dateSerializer kvs of Inl e \<Rightarrow> Inl e | Inr ms \<Rightarrow> Inr (Some (JObj ms)))"
  by (cases n) simp_all

lemma serializeProperty_string:
  "0 < n \<Longrightarrow> serializeProperty n dateSerializer k (VStr x) = Inr (Some (JStr x))"
  by (cases n) simp_all

lemma stringify_envelope:
  assumes "stringify dateSerializer (envelope now (t # ts, cs)) = Inr (Some j)"
  shows "\<exists>tr tjs cjs. serializeProperty 998 dateSerializer (decimal 0) t = Inr tr
           \<and> j = JObj [(''todos'', JArr ((case tr of None \<Rightarrow> JNull | Some x \<Rightarrow> x) # tjs)),
                       (''categories'', JArr cjs),
                       (''version'', JStr ''1.0.0''), (''lastModified'', JStr now)]"
  using assms
  by (auto simp: stringify_def callStack_def envelope_def serializeProperty_array
      serializeProperty_object serializeProperty_string
      simp del: serializeProperty.simps split: sum.splits option.splits)

lemma serializeProperty_unfold:
  assumes "0 < n"
  shows "serializeProperty n r k v =
     (case r k (toJSON v) of
        Inl e \<Rightarrow> Inl e
      | Inr VUndefined \<Rightarrow> Inr None
      | Inr VNull \<Rightarrow> Inr (Some JNull)
      | Inr (VBool b) \<Rightarrow> Inr (Some (JBool b))
      | Inr (VNum i) \<Rightarrow> Inr (Some (JNum i))
      | Inr (VStr s) \<Rightarrow> Inr (Some (JStr s))
      | Inr (VDate d) \<Rightarrow> Inr (Some (JObj []))
      | Inr (VArr xs) \<Rightarrow>
          (case serializeElements (n - 1) r 0 xs of Inl e \<Rightarrow> Inl e | Inr js \<Rightarrow> Inr (Some (JArr js)))
      | Inr (VObj kvs) \<Rightarrow>
          (case serializeMembers (n - 1) r kvs of Inl e \<Rightarrow> Inl e | Inr ms \<Rightarrow> Inr (Some (JObj ms))))"
proof -
  from assms obtain m where n: "n = Suc m" by (cases n) auto
  then have d: "n - 1 = m" by simp
  show ?thesis unfolding d unfolding n by (rule serializeProperty.simps(2))
qed

lemma ser_milk: "serialized clock1 ([todoToJs milk], [categoryToJs work]) =
   Inr (JsonText (JObj
     [(''todos'', JArr [JObj [(''id'', JStr ''t-1''), (''createdAt'', JStr ''2024-01-01T00:00:00.000Z''),
                              (''title'', JStr ''Buy milk''), (''completed'', JBool False),
                              (''priority'', JStr ''high''), (''categoryId'', JStr ''c-1'')]]),
      (''categories'', JArr [JObj [(''id'', JStr ''c-1''), (''todoCount'', JNum 1),
                                   (''name'', JStr ''Work''), (''color'', JStr ''#2ecc71'')]]),
      (''version'', JStr ''1.0.0''), (''lastModified'', JStr ''2024-01-02T00:00:00.000Z'')]))"
  by (simp add: serialized_def envelope_def validateData_def validateTodo_def validateCategory_def
      todoToJs_def categoryToJs_def milk_def work_def clock0_def clock1_def stringify_def callStack_def
      serializeProperty_unfold)

text \<open>
  C2. \<open>save\<close> followed by \<open>load\<close> does not return the saved record sets.
  \<open>JSON.stringify\<close> calls \<open>Date.prototype.toJSON\<close> before the replacer, so
  \<open>dateSerializer\<close> never receives a \<open>Date\<close>: each date is written as a plain ISO string,
  not as a \<open>__date\<close> wrapper, and \<open>dateDeserializer\<close> leaves it a string. Whenever a \<open>save\<close>
  of a todo list that is not empty returns, reading the file it wrote fails (at the latest
  on \<open>createdAt\<close>, which \<open>validateTodo\<close> wants to be a \<open>Date\<close>).
\<close>

theorem saved_todos_do_not_load:
  assumes "fst (save cfg now (t # ts, cs) s) = Inr ()"
  shows "\<exists>e. loadTry (snd (save cfg now (t # ts, cs) s)) = Inl e"
proof -
  let ?env = "envelope now (t # ts, cs)"
  from assms obtain content where ser: "serialized now (t # ts, cs) = Inr content"
    and df: "dataFile (snd (save cfg now (t # ts, cs) s)) = Some content"
    by (auto simp: save_result split: sum.splits)
  from ser have v: "validateData ?env = Inr ()"
    by (auto simp: serialized_def split: sum.splits)
  then have vt: "validateTodo t = Inr ()"
    by (auto simp: validateData_def envelope_def split: sum.splits if_splits)
  from ser obtain j where j: "stringify dateSerializer ?env = Inr (Some j)" and content: "content = JsonText j"
    by (auto simp: serialized_def split: sum.splits option.splits)
  from stringify_envelope [OF j] obtain tr tjs cjs where
    tr: "serializeProperty 998 dateSerializer (decimal 0) t = Inr tr"
    and jj: "j = JObj [(''todos'', JArr ((case tr of None \<Rightarrow> JNull | Some x \<Rightarrow> x) # tjs)),
                       (''categories'', JArr cjs),
                       (''version'', JStr ''1.0.0''), (''lastModified'', JStr now)]"
    by blast
  have "(1::nat) < 998" by simp
  from revived_todo_invalid [OF vt this tr, of "decimal 0"] obtain tj e where
    tj: "tr = Some tj" and e: "validateTodo (internalize dateDeserializer (decimal 0) tj) = Inl e"
    by blast
  have "\<exists>e. validateData (parse dateDeserializer j) = Inl e"
    by (simp add: jj tj parse_def validateData_def e)
  then show ?thesis
    by (auto simp: loadTry_def df content split: sum.splits)
qed

theorem saved_todos_do_not_load_witness:
  "fst (save noBackups clock1 ([todoToJs milk], [categoryToJs work]) emptyDisk) = Inr ()
   \<and> (\<exists>e. loadTry (snd (save noBackups clock1 ([todoToJs milk], [categoryToJs work]) emptyDisk)) = Inl e)
   \<and> load noBackups (snd (save noBackups clock1 ([todoToJs milk], [categoryToJs work]) emptyDisk)) =
       Inl (FileManagerError
             ''Failed to load data: Invalid todo at index 0: Todo must have a valid createdAt date''
             ''LOAD_ERROR''
             (Some (Error ''Invalid todo at index 0: Todo must have a valid createdAt date'')))"
proof -
  have h: "fst (save noBackups clock1 ([todoToJs milk], [categoryToJs work]) emptyDisk) = Inr ()"
    by (simp add: save_result ser_milk)
  have l: "load noBackups (snd (save noBackups clock1 ([todoToJs milk], [categoryToJs work]) emptyDisk)) =
       Inl (FileManagerError
             ''Failed to load data: Invalid todo at index 0: Todo must have a valid createdAt date''
             ''LOAD_ERROR''
             (Some (Error ''Invalid todo at index 0: Todo must have a valid createdAt date'')))"
    by (simp add: save_result ser_milk noBackups_def load_def loadTry_def parse_def validateData_def
        validateTodo_def decimal.simps digit_def)
  from saved_todos_do_not_load [OF h] h l show ?thesis by blast
qed

section \<open>Atomic replacement of the data file\<close>

lemma dataFile_copyFile: "copyFile file s = Inr s' \<Longrightarrow> dataFile s' = dataFile s"
  by (auto simp: copyFile_def split: option.splits)

lemma dataFile_unlink: "unlink file s = Inr s' \<Longrightarrow> dataFile s' = dataFile s"
  by (auto simp: unlink_def split: option.splits if_splits)

lemma unlinkAllStates_last: "last (s # unlinkAllStates fs s) = unlinkAll fs s"
proof (induction fs arbitrary: s)
  case Nil
  then show ?case by simp
next
  case (Cons f fs)
  show ?case
  proof (cases "unlink f s")
    case (Inl e)
    then show ?thesis by simp
  next
    case (Inr s')
    with Cons [of s'] show ?thesis by simp
  qed
qed

lemma unlinkAllStates_dataFile:
  "s' \<in> set (unlinkAllStates fs s) \<Longrightarrow> dataFile s' = dataFile s"
proof (induction fs arbitrary: s)
  case Nil
  then show ?case by simp
next
  case (Cons f fs)
  show ?case
  proof (cases "unlink f s")
    case (Inl e)
    with Cons.prems show ?thesis by simp
  next
    case (Inr s1)
    with Cons.prems have "s' = s1 \<or> s' \<in> set (unlinkAllStates fs s1)" by simp
    with Cons.IH [of s1] dataFile_unlink [OF Inr] show ?thesis by auto
  qed
qed

lemma cleanupStates_last: "last (s # cleanupOldBackupsStates cfg s) = cleanupOldBackups cfg s"
proof (cases "maxBackups cfg")
  case None
  then show ?thesis by (simp add: cleanupOldBackupsStates_def cleanupOldBackups_def)
next
  case (Some n)
  show ?thesis
  proof (cases "readdir s")
    case (Inl e)
    with Some show ?thesis by (simp add: cleanupOldBackupsStates_def cleanupOldBackups_def)
  next
    case (Inr backupFiles)
    show ?thesis
    proof (cases "isSet (backupPath cfg) \<and> n \<noteq> 0 \<and> n < length (todoBackups backupFiles)")
      case True
      with Some Inr show ?thesis
        by (simp add: cleanupOldBackupsStates_def cleanupOldBackups_def unlinkAllStates_last
            del: last.simps)
    next
      case False
      with Some Inr show ?thesis
        by (auto simp add: cleanupOldBackupsStates_def cleanupOldBackups_def)
    qed
  qed
qed

lemma cleanupStates_dataFile:
  assumes "s' \<in> set (cleanupOldBackupsStates cfg s)"
  shows "dataFile s' = dataFile s"
proof (cases "maxBackups cfg")
  case None
  with assms show ?thesis by (simp add: cleanupOldBackupsStates_def)
next
  case (Some n)
  show ?thesis
  proof (cases "readdir s")
    case (Inl e)
    with Some assms show ?thesis by (auto simp add: cleanupOldBackupsStates_def split: if_splits)
  next
    case (Inr backupFiles)
    with Some assms have "s' \<in> set (unlinkAllStates (drop n (todoBackups backupFiles)) s)"
      by (simp add: cleanupOldBackupsStates_def split: if_splits)
    then show ?thesis by (rule unlinkAllStates_dataFile)
  qed
qed

lemma createBackupStates_last: "last (s # createBackupStates cfg now s) = createBackup cfg now s"
proof (cases "copyFile (backupFileName now) s")
  case (Inl e)
  then show ?thesis by (simp add: createBackupStates_def createBackup_def)
next
  case (Inr s1)
  show ?thesis
  proof (cases "\<not> isSet (backupPath cfg) \<or> \<not> fileExists s")
    case True
    then show ?thesis by (auto simp add: createBackupStates_def createBackup_def)
  next
    case False
    show ?thesis
    proof (cases "maxBackups cfg")
      case None
      with Inr False show ?thesis
        by (simp add: createBackupStates_def createBackup_def copyFileStates_def)
    next
      case (Some n)
      have "last (s # copyFileStates (backupFileName now) s @ cleanupOldBackupsStates cfg s1)
              = last (s1 # cleanupOldBackupsStates cfg s1)"
        using Inr by (simp add: copyFileStates_def)
      then have c: "last (s # copyFileStates (backupFileName now) s @ cleanupOldBackupsStates cfg s1)
              = cleanupOldBackups cfg s1"
        by (simp only: cleanupStates_last)
      show ?thesis
      proof (cases "n = 0")
        case True
        with Some Inr False show ?thesis
          by (simp add: createBackupStates_def createBackup_def copyFileStates_def)
      next
        case n: False
        with Some Inr False have "createBackupStates cfg now s
            = copyFileStates (backupFileName now) s @ cleanupOldBackupsStates cfg s1"
          and "createBackup cfg now s = cleanupOldBackups cfg s1"
          by (simp_all add: createBackupStates_def createBackup_def)
        with c show ?thesis by simp
      qed
    qed
  qed
qed

lemma createBackupStates_dataFile:
  assumes "s' \<in> set (createBackupStates cfg now s)"
  shows "dataFile s' = dataFile s"
proof (cases "copyFile (backupFileName now) s")
  case (Inl e)
  with assms show ?thesis by (simp add: createBackupStates_def split: if_splits)
next
  case (Inr s1)
  from assms Inr have "s' \<in> set (copyFileStates (backupFileName now) s)
      \<or> s' \<in> set (cleanupOldBackupsStates cfg s1)"
    by (auto simp: createBackupStates_def split: if_splits option.splits)
  then show ?thesis
  proof
    assume "s' \<in> set (copyFileStates (backupFileName now) s)"
    with Inr dataFile_copyFile [OF Inr] show ?thesis by (auto simp: copyFileStates_def)
  next
    assume "s' \<in> set (cleanupOldBackupsStates cfg s1)"
    from cleanupStates_dataFile [OF this] dataFile_copyFile [OF Inr] show ?thesis by simp
  qed
qed

lemma dataFile_createBackup: "dataFile (createBackup cfg now s) = dataFile s"
proof -
  have "last (s # createBackupStates cfg now s) \<in> set (s # createBackupStates cfg now s)"
    by (rule last_in_set) simp
  then have "createBackup cfg now s \<in> set (s # createBackupStates cfg now s)"
    by (simp only: createBackupStates_last)
  then show ?thesis by (auto dest: createBackupStates_dataFile)
qed

text \<open>
  C3. Every state the file system passes through during a \<open>save\<close>, including the ones
  in which a copy or a write has been interrupted half-way, shows the data file either
  with its old content or with the complete new text. All states but the one after
  the \<open>rename\<close> show the old content, so an interruption before the \<open>rename\<close> leaves the
  original untouched; the sequence of states ends in the state \<open>save\<close> returns. The
  \<open>rename\<close> itself is taken to be atomic, as the file system promises.
\<close>

theorem save_replaces_data_file_atomically:
  "last (saveStates cfg now data s) = snd (save cfg now data s)
   \<and> (\<forall>s' \<in> set (butlast (saveStates cfg now data s)). dataFile s' = dataFile s)
   \<and> (\<forall>s' \<in> set (saveStates cfg now data s).
         dataFile s' = dataFile s \<or> (\<exists>t. serialized now data = Inr t \<and> dataFile s' = Some t))"
proof -
  define s1 where "s1 = (if autoBackup cfg then createBackup cfg now s else s)"
  define bs where "bs = (if autoBackup cfg then createBackupStates cfg now s else [])"
  have l1: "last (s # bs) = s1"
  proof (cases "autoBackup cfg")
    case True
    then show ?thesis by (simp add: s1_def bs_def createBackupStates_last del: last.simps)
  next
    case False
    then show ?thesis by (simp add: s1_def bs_def)
  qed
  have d1: "dataFile s' = dataFile s" if "s' \<in> set (s # bs)" for s'
  proof (cases "s' = s")
    case True
    then show ?thesis by simp
  next
    case False
    with that have "s' \<in> set (createBackupStates cfg now s)"
      by (cases "autoBackup cfg") (simp_all add: bs_def)
    then show ?thesis by (rule createBackupStates_dataFile)
  qed
  have ds1: "dataFile s1 = dataFile s"
    by (simp add: s1_def dataFile_createBackup)
  show ?thesis
  proof (cases "serialized now data")
    case (Inl e)
    then have st: "saveStates cfg now data s = s # bs"
      by (simp add: saveStates_def Let_def bs_def)
    have sv: "snd (save cfg now data s) = s1"
      using Inl by (simp add: save_def Let_def s1_def)
    have a: "last (saveStates cfg now data s) = snd (save cfg now data s)"
      by (simp only: st sv l1)
    have b: "\<forall>s' \<in> set (butlast (saveStates cfg now data s)). dataFile s' = dataFile s"
    proof
      fix s' assume "s' \<in> set (butlast (saveStates cfg now data s))"
      then have "s' \<in> set (s # bs)" unfolding st by (rule in_set_butlastD)
      then show "dataFile s' = dataFile s" by (rule d1)
    qed
    have c: "\<forall>s' \<in> set (saveStates cfg now data s).
         dataFile s' = dataFile s \<or> (\<exists>t. serialized now data = Inr t \<and> dataFile s' = Some t)"
    proof
      fix s' assume "s' \<in> set (saveStates cfg now data s)"
      then have "s' \<in> set (s # bs)" unfolding st .
      then have "dataFile s' = dataFile s" by (rule d1)
      then show "dataFile s' = dataFile s \<or> (\<exists>t. serialized now data = Inr t \<and> dataFile s' = Some t)" ..
    qed
    from a b c show ?thesis by blast
  next
    case (Inr jsonData)
    define s2 where "s2 = s1\<lparr>dataFile := Some jsonData, tempFile := None\<rparr>"
    have st: "saveStates cfg now data s = ((s # bs) @ writeFileStates jsonData s1) @ [s2]"
      using Inr by (simp add: saveStates_def Let_def rename_def writeFile_def s1_def bs_def s2_def)
    have sv: "snd (save cfg now data s) = s2"
      using Inr by (simp add: save_def Let_def rename_def writeFile_def s1_def s2_def)
    have bl: "butlast (saveStates cfg now data s) = (s # bs) @ writeFileStates jsonData s1"
      unfolding st by (rule butlast_snoc)
    have w: "dataFile s' = dataFile s" if "s' \<in> set (writeFileStates jsonData s1)" for s'
      using that ds1 by (auto simp add: writeFileStates_def writeFile_def)
    have a: "last (saveStates cfg now data s) = snd (save cfg now data s)"
      unfolding st sv by (rule last_snoc)
    have b: "\<forall>s' \<in> set (butlast (saveStates cfg now data s)). dataFile s' = dataFile s"
    proof
      fix s' assume "s' \<in> set (butlast (saveStates cfg now data s))"
      then have "s' \<in> set (s # bs) \<or> s' \<in> set (writeFileStates jsonData s1)"
        unfolding bl set_append by blast
      then show "dataFile s' = dataFile s" using d1 w by blast
    qed
    have c: "\<forall>s' \<in> set (saveStates cfg now data s).
         dataFile s' = dataFile s \<or> (\<exists>t. serialized now data = Inr t \<and> dataFile s' = Some t)"
    proof
      fix s' assume "s' \<in> set (saveStates cfg now data s)"
      then have "s' \<in> set (butlast (saveStates cfg now data s)) \<or> s' = s2"
        unfolding bl unfolding st by auto
      then show "dataFile s' = dataFile s \<or> (\<exists>t. serialized now data = Inr t \<and> dataFile s' = Some t)"
      proof
        assume "s' \<in> set (butlast (saveStates cfg now data s))"
        with b show ?thesis by blast
      next
        assume "s' = s2"
        then have "\<exists>t. serialized now data = Inr t \<and> dataFile s' = Some t"
          by (simp add: s2_def Inr)
        then show ?thesis ..
      qed
    qed
    from a b c show ?thesis by blast
  qed
qed

theorem save_replaces_data_file_atomically_witness:
  "map dataFile (saveStates DEFAULT_CONFIG clock1 ([todoToJs milk], [categoryToJs work]) oldDisk)
     = replicate 7 (dataFile oldDisk)
        @ [dataFile (snd (save DEFAULT_CONFIG clock1 ([todoToJs milk], [categoryToJs work]) oldDisk))]
   \<and> last (saveStates DEFAULT_CONFIG clock1 ([todoToJs milk], [categoryToJs work]) oldDisk)
       = snd (save DEFAULT_CONFIG clock1 ([todoToJs milk], [categoryToJs work]) oldDisk)
   \<and> dataFile (snd (save DEFAULT_CONFIG clock1 ([todoToJs milk], [categoryToJs work]) oldDisk))
       \<noteq> dataFile oldDisk"
proof -
  have "map dataFile (saveStates DEFAULT_CONFIG clock1 ([todoToJs milk], [categoryToJs work]) oldDisk)
     = replicate 7 (dataFile oldDisk)
        @ [dataFile (snd (save DEFAULT_CONFIG clock1 ([todoToJs milk], [categoryToJs work]) oldDisk))]"
    by (simp add: saveStates_def save_def ser_milk DEFAULT_CONFIG_def oldDisk_def createBackup_def
        createBackupStates_def copyFileStates_def copyFile_def fileExists_def
        cleanupOldBackups_def cleanupOldBackupsStates_def readdir_def todoBackups_def
        writeFileStates_def writeFile_def rename_def Let_def numeral_eq_Suc)
  moreover have "dataFile (snd (save DEFAULT_CONFIG clock1 ([todoToJs milk], [categoryToJs work]) oldDisk))
       \<noteq> dataFile oldDisk"
    by (simp add: save_def ser_milk DEFAULT_CONFIG_def oldDisk_def writeFile_def rename_def Let_def)
  ultimately show ?thesis
    using save_replaces_data_file_atomically
      [of DEFAULT_CONFIG clock1 "([todoToJs milk], [categoryToJs work])" oldDisk]
    by blast
qed

section \<open>Search\<close>

lemma startsWith_prefix: "startsWith s p \<longleftrightarrow> prefix p s"
proof
  assume "startsWith s p"
  then have "take (length p) s = p" by (simp add: startsWith_def)
  then show "prefix p s" by (metis take_is_prefix)
next
  assume "prefix p s"
  then show "startsWith s p" by (auto simp: startsWith_def prefix_def)
qed

lemma includesStr_sublist: "includesStr s q \<longleftrightarrow> sublist q s"
  by (induction s) (simp_all add: startsWith_prefix sublist_Cons_right)

text \<open>
  C4, as the code has it. For an initialized coordinator, \<open>searchTodos(q)\<close> returns, in
  their stored order, exactly the todos whose title or description contains \<open>q\<close> as a
  substring once both are put in lower case: the match ignores case. (An
  uninitialized coordinator throws \<open>NOT_INITIALIZED\<close>.)
\<close>

theorem searchTodos_ignores_case:
  assumes "isInitialized m"
  shows "searchTodos query m =
           Inr (filter
                  (\<lambda>todo. sublist (toLowerCase query) (toLowerCase (title todo)) \<or>
                          (\<exists>d. description todo = Some d \<and>
                               sublist (toLowerCase query) (toLowerCase d)))
                  (todos m))"
proof -
  have "(case description todo of None \<Rightarrow> False
         | Some d \<Rightarrow> d \<noteq> [] \<and> includesStr (toLowerCase d) (toLowerCase query))
        \<or> includesStr (toLowerCase (title todo)) (toLowerCase query)
        \<longleftrightarrow> sublist (toLowerCase query) (toLowerCase (title todo)) \<or>
            (\<exists>d. description todo = Some d \<and> sublist (toLowerCase query) (toLowerCase d))"
    for todo :: Todo
  proof (cases "description todo")
    case None
    then show ?thesis by (simp add: includesStr_sublist)
  next
    case (Some d)
    show ?thesis
    proof (cases "d = []")
      case True
      with Some show ?thesis by (auto simp: includesStr_sublist toLowerCase_def)
    next
      case False
      with Some show ?thesis by (auto simp: includesStr_sublist)
    qed
  qed
  then have "filter (\<lambda>todo. includesStr (toLowerCase (title todo)) (toLowerCase query) \<or>
                    (case description todo of None \<Rightarrow> False
                     | Some d \<Rightarrow> d \<noteq> [] \<and> includesStr (toLowerCase d) (toLowerCase query))) (todos m)
       = filter (\<lambda>todo. sublist (toLowerCase query) (toLowerCase (title todo)) \<or>
                          (\<exists>d. description todo = Some d \<and>
                               sublist (toLowerCase query) (toLowerCase d))) (todos m)"
    by (intro filter_cong refl) blast
  with assms show ?thesis by (simp add: searchTodos_def ensureInitialized_def)
qed

theorem searchTodos_ignores_case_witness:
  "isInitialized (testManager False [milkCaps] [work])
   \<and> searchTodos ''MILK'' (testManager False [milkCaps] [work]) = Inr [milkCaps]"
proof -
  have i: "isInitialized (testManager False [milkCaps] [work])" by (simp add: testManager_def)
  have "sublist (toLowerCase ''MILK'') (toLowerCase (title milkCaps))"
    by (simp add: milkCaps_def toLowerCase_def toLowerChar_def startsWith_def
        includesStr_sublist [symmetric])
  with searchTodos_ignores_case [OF i, of "''MILK''"] i show ?thesis
    by (simp add: testManager_def)
qed

text \<open>
  C4 as stated, with a case-sensitive match, fails: the query \<open>milk\<close> finds the todo
  titled \<open>Buy Milk\<close>, which has no description and whose title does not contain \<open>milk\<close>.
\<close>

theorem searchTodos_case_sensitive_counterexample:
  "searchTodos ''milk'' (testManager False [milkCaps] [work]) = Inr [milkCaps]
   \<and> \<not> sublist ''milk'' (title milkCaps) \<and> description milkCaps = None"
  by (simp add: searchTodos_def ensureInitialized_def testManager_def milkCaps_def milk_def
      toLowerCase_def toLowerChar_def startsWith_def includesStr_sublist [symmetric])

section \<open>Recovery from a backup on \<open>load\<close>\<close>

lemma sorted_le_last:
  fixes b :: "'a :: linorder"
  shows "sorted ys \<Longrightarrow> b \<in> set ys \<Longrightarrow> b \<le> last ys"
proof (induction ys)
  case Nil
  then show ?case by simp
next
  case (Cons y ys)
  show ?case
  proof (cases "ys = []")
    case True
    with Cons.prems show ?thesis by simp
  next
    case False
    then have "last ys \<in> set ys" by simp
    with Cons False show ?thesis by auto
  qed
qed

lemma sorted_last_greatest:
  fixes b :: "'a :: linorder"
  assumes "sorted ys" and "b \<in> set ys" and "\<forall>x \<in> set ys. x \<le> b"
  shows "last ys = b"
proof -
  from assms(2) have ne: "ys \<noteq> []" by auto
  then have "last ys \<in> set ys" by simp
  with assms(3) have "last ys \<le> b" by blast
  moreover from assms(1,2) have "b \<le> last ys" by (rule sorted_le_last)
  ultimately show ?thesis by simp
qed

lemma todoBackups_latest:
  assumes "b \<in> set backupFiles" and "isBackupName b"
    and "\<forall>f \<in> set backupFiles. isBackupName f \<longrightarrow> f \<le> b"
  shows "\<exists>older. todoBackups backupFiles = b # older"
proof -
  let ?ys = "sort (filter isBackupName backupFiles)"
  have "b \<in> set ?ys" using assms(1,2) by simp
  moreover have "\<forall>x \<in> set ?ys. x \<le> b" using assms(3) by simp
  ultimately have l: "last ?ys = b" and ne: "?ys \<noteq> []"
    using sorted_last_greatest [of ?ys b] by (simp, fastforce)
  then have "hd (rev ?ys) = b" "rev ?ys \<noteq> []" by (simp_all add: hd_rev)
  then show ?thesis unfolding todoBackups_def by (cases "rev ?ys") auto
qed




section \<open>Backup rotation\<close>

lemma greatest_unique:
  assumes "finite S" "greatest n K S" "greatest n K' S"
  shows "K = K'"
proof (rule ccontr)
  assume ne: "K \<noteq> K'"
  from assms have fin: "finite K" "finite K'" and sub: "K \<subseteq> S" "K' \<subseteq> S"
    and c: "card K = card K'"
    by (auto simp: greatest_def intro: finite_subset)
  have "K - K' \<noteq> {}"
  proof
    assume "K - K' = {}"
    then have "K \<subseteq> K'" by blast
    with fin c have "K = K'" by (simp add: card_subset_eq)
    with ne show False by simp
  qed
  moreover have "K' - K \<noteq> {}"
  proof
    assume "K' - K = {}"
    then have "K' \<subseteq> K" by blast
    with fin c have "K' = K" by (simp add: card_subset_eq)
    with ne show False by simp
  qed
  ultimately obtain k k' where k: "k \<in> K" "k \<notin> K'" and k': "k' \<in> K'" "k' \<notin> K" by blast
  with sub have "k' \<in> S - K" "k \<in> S - K'" by blast+
  with assms(2,3) k k' have "k' < k" "k < k'" by (auto simp: greatest_def)
  then show False by simp
qed

lemma greatest_union:
  assumes fin: "finite S" "finite T" and K: "greatest n K S" and K': "greatest n K' (T \<union> K)"
  shows "greatest n K' (T \<union> S)"
proof -
  from K have KS: "K \<subseteq> S" and cK: "card K = min n (card S)"
    and tK: "\<And>k y. k \<in> K \<Longrightarrow> y \<in> S \<Longrightarrow> y \<notin> K \<Longrightarrow> y < k"
    by (auto simp: greatest_def)
  from K' have K'S: "K' \<subseteq> T \<union> K" and cK': "card K' = min n (card (T \<union> K))"
    and tK': "\<And>k y. k \<in> K' \<Longrightarrow> y \<in> T \<union> K \<Longrightarrow> y \<notin> K' \<Longrightarrow> y < k"
    by (auto simp: greatest_def)
  from fin KS have finK: "finite K" by (metis rev_finite_subset)
  with K'S fin have finK': "finite K'" by (metis finite_Un rev_finite_subset)
  show ?thesis
  proof (cases "K = S")
    case True
    with K' show ?thesis by simp
  next
    case False
    with KS fin have "card K < card S" by (simp add: psubset_card_mono psubset_eq)
    with cK have n: "card K = n" "n < card S" by auto
    have "card K \<le> card (T \<union> K)" using fin finK by (intro card_mono) auto
    with n have c1: "min n (card (T \<union> K)) = n" by simp
    have "card S \<le> card (T \<union> S)" using fin by (intro card_mono) auto
    with n have c2: "min n (card (T \<union> S)) = n" by simp
    have t: "y < k" if "k \<in> K'" "y \<in> T \<union> S" "y \<notin> K'" for k y
    proof (cases "y \<in> T \<union> K")
      case True
      with that show ?thesis by (auto intro: tK')
    next
      case y: False
      then have yS: "y \<in> S" "y \<notin> K" using that(2) by auto
      show ?thesis
      proof (cases "k \<in> K")
        case True
        with yS show ?thesis by (auto intro: tK)
      next
        case False
        have "\<not> K \<subseteq> K'"
        proof
          assume "K \<subseteq> K'"
          with False that(1) have "insert k K \<subseteq> K'" by simp
          then have "card (insert k K) \<le> card K'" using finK' by (intro card_mono)
          with False finK n cK' c1 show False by simp
        qed
        then obtain k0 where k0: "k0 \<in> K" "k0 \<notin> K'" by blast
        with that(1) have "k0 < k" by (auto intro: tK')
        moreover from k0 yS have "y < k0" by (auto intro: tK)
        ultimately show ?thesis by simp
      qed
    qed
    from K'S KS have "K' \<subseteq> T \<union> S" by blast
    with cK' c1 c2 t show ?thesis by (auto simp: greatest_def)
  qed
qed

lemma sorted_wrt_rev_sort:
  "distinct xs \<Longrightarrow> sorted_wrt (>) (rev (sort (xs :: string list)))"
proof -
  assume d: "distinct xs"
  have "sorted_wrt (<) (sort xs)"
    using d by (simp add: strict_sorted_iff)
  then show ?thesis by (simp add: sorted_wrt_rev)
qed

lemma greatest_newest:
  assumes "distinct names"
  shows "greatest n (set (newest n names)) (set names)"
proof -
  let ?ys = "rev (sort names)"
  have d: "distinct ?ys" and s: "set ?ys = set names" and l: "length ?ys = length names"
    using assms by simp_all
  have sw: "sorted_wrt (>) (take n ?ys @ drop n ?ys)"
    using sorted_wrt_rev_sort [OF assms] by simp
  have sub: "set (take n ?ys) \<subseteq> set names" using s set_take_subset by fastforce
  have "card (set (take n ?ys)) = length (take n ?ys)"
    using d by (intro distinct_card distinct_take)
  also have "\<dots> = min n (card (set names))"
    using l assms by (simp add: distinct_card min.commute)
  finally have c: "card (set (take n ?ys)) = min n (card (set names))" .
  have "set names - set (take n ?ys) \<subseteq> set (drop n ?ys)"
    using s by (metis Diff_subset_conv append_take_drop_id set_append subset_refl sup_commute)
  with sw have t: "\<forall>k \<in> set (take n ?ys). \<forall>x \<in> set names - set (take n ?ys). x < k"
    unfolding sorted_wrt_append by blast
  from sub c t show ?thesis by (simp add: greatest_def newest_def)
qed

lemma isBackupName_backupFileName: "isBackupName (backupFileName now)"
  by (simp add: isBackupName_def backupFileName_def startsWith_def endsWith_def)

lemma unlinkAll_filter:
  "backupDir s = Some es \<Longrightarrow> distinct ds \<Longrightarrow> set ds \<subseteq> fst ` set es
   \<Longrightarrow> unlinkAll ds s = s\<lparr>backupDir := Some (filter (\<lambda>e. fst e \<notin> set ds) es)\<rparr>"
proof (induction ds arbitrary: s es)
  case Nil
  then show ?case by simp
next
  case (Cons d ds)
  let ?es = "AList.delete d es"
  let ?s = "s\<lparr>backupDir := Some ?es\<rparr>"
  from Cons.prems have u: "unlink d s = Inr ?s" by (simp add: unlink_def)
  have e: "?es = filter (\<lambda>e. fst e \<noteq> d) es"
    by (auto simp add: AList.delete_eq case_prod_unfold intro: filter_cong)
  have "set ds \<subseteq> fst ` set ?es"
  proof
    fix x assume x: "x \<in> set ds"
    with Cons.prems(2) have "x \<noteq> d" by auto
    moreover from x Cons.prems(3) obtain v where "(x, v) \<in> set es" by force
    ultimately have "(x, v) \<in> set ?es" unfolding e by simp
    then show "x \<in> fst ` set ?es" by force
  qed
  with Cons.IH [of ?s ?es] Cons.prems(2)
  have "unlinkAll ds ?s = ?s\<lparr>backupDir := Some (filter (\<lambda>e. fst e \<notin> set ds) ?es)\<rparr>" by simp
  moreover have "filter (\<lambda>e. fst e \<notin> set ds) ?es = filter (\<lambda>e. fst e \<notin> set (d # ds)) es"
    unfolding e by (auto intro: filter_cong)
  ultimately show ?case using u by simp
qed

lemma distinct_todoBackups: "distinct ns \<Longrightarrow> distinct (todoBackups ns)"
  by (simp add: todoBackups_def)

lemma set_todoBackups: "set (todoBackups ns) = {f \<in> set ns. isBackupName f}"
  by (auto simp: todoBackups_def)

lemma cleanupOldBackups_result:
  assumes "isSet (backupPath cfg)" "maxBackups cfg = Some n" "0 < n"
    and "backupDir s = Some es" "distinct (map fst es)"
  shows "cleanupOldBackups cfg s =
           s\<lparr>backupDir := Some (filter (\<lambda>e. fst e \<notin> set (drop n (todoBackups (map fst es)))) es)\<rparr>"
proof (cases "n < length (todoBackups (map fst es))")
  case True
  let ?ds = "drop n (todoBackups (map fst es))"
  have "distinct ?ds" using assms(5) by (simp add: distinct_todoBackups)
  moreover have "set ?ds \<subseteq> fst ` set es"
    using set_drop_subset [of n "todoBackups (map fst es)"] by (auto simp: set_todoBackups)
  ultimately have "unlinkAll ?ds s = s\<lparr>backupDir := Some (filter (\<lambda>e. fst e \<notin> set ?ds) es)\<rparr>"
    using assms(4) by (intro unlinkAll_filter)
  with True assms show ?thesis by (simp add: cleanupOldBackups_def readdir_def)
next
  case False
  then have "drop n (todoBackups (map fst es)) = []" by simp
  with False assms show ?thesis by (simp add: cleanupOldBackups_def readdir_def)
qed

lemma createBackup_step:
  assumes "isSet (backupPath cfg)" "maxBackups cfg = Some n" "0 < n"
    and "dataFile s \<noteq> None" "backupDir s = Some es" "distinct (map fst es)"
  shows "\<exists>es'. backupDir (createBackup cfg now s) = Some es' \<and> distinct (map fst es')"
    and "distinct (backupNames (createBackup cfg now s))"
    and "set (backupNames (createBackup cfg now s))
           = set (newest n (filter isBackupName (map fst (AList.update (backupFileName now) (the (dataFile s)) es))))"
    and "greatest n (set (backupNames (createBackup cfg now s)))
           (insert (backupFileName now) (set (backupNames s)))"
proof -
  let ?f = "backupFileName now"
  obtain t where t: "dataFile s = Some t" using assms(4) by auto
  let ?es1 = "AList.update ?f t es"
  let ?s1 = "s\<lparr>backupDir := Some ?es1\<rparr>"
  let ?B1 = "filter isBackupName (map fst ?es1)"
  let ?ds = "drop n (todoBackups (map fst ?es1))"
  let ?es2 = "filter (\<lambda>e. fst e \<notin> set ?ds) ?es1"
  have c: "copyFile ?f s = Inr ?s1" using t assms(5) by (simp add: copyFile_def)
  have d1: "distinct (map fst ?es1)" using assms(6) by (simp add: distinct_update)
  have "cleanupOldBackups cfg ?s1 = ?s1\<lparr>backupDir := Some ?es2\<rparr>"
    using assms(1-3) d1 by (intro cleanupOldBackups_result) simp_all
  with c assms(1-3) t have r: "createBackup cfg now s = s\<lparr>backupDir := Some ?es2\<rparr>"
    by (simp add: createBackup_def fileExists_def)
  have d2: "distinct (map fst ?es2)" using d1 by (simp add: distinct_map_filter)
  from r d2 show "\<exists>es'. backupDir (createBackup cfg now s) = Some es' \<and> distinct (map fst es')"
    by simp
  have bn: "backupNames (createBackup cfg now s) = filter isBackupName (map fst ?es2)"
    by (simp add: r backupNames_def)
  from d2 show "distinct (backupNames (createBackup cfg now s))"
    unfolding bn by (rule distinct_filter)
  have dB1: "distinct ?B1" using d1 by (rule distinct_filter)
  have tb: "todoBackups (map fst ?es1) = rev (sort ?B1)" by (simp add: todoBackups_def)
  have dtb: "distinct (rev (sort ?B1))" using dB1 by simp
  have "set (filter isBackupName (map fst ?es2)) = set ?B1 - set ?ds" by auto
  also have "\<dots> = set (rev (sort ?B1)) - set (drop n (rev (sort ?B1)))"
    unfolding tb by simp
  also have "\<dots> = set (take n (rev (sort ?B1)))"
    using dtb by (metis Diff_cancel Un_Diff append_take_drop_id distinct_append
        Diff_triv set_append sup_bot_right inf_commute)
  finally have k: "set (backupNames (createBackup cfg now s)) = set (newest n ?B1)"
    unfolding bn newest_def .
  then show "set (backupNames (createBackup cfg now s))
           = set (newest n (filter isBackupName (map fst (AList.update (backupFileName now) (the (dataFile s)) es))))"
    by (simp add: t)
  have "set ?B1 = insert ?f (set (backupNames s))"
    using assms(5) isBackupName_backupFileName [of now]
    by (auto simp: backupNames_def update_keys)
  with greatest_newest [OF dB1, of n] k
  show "greatest n (set (backupNames (createBackup cfg now s)))
           (insert (backupFileName now) (set (backupNames s)))"
    by simp
qed

lemma backups_greatest:
  assumes "isSet (backupPath cfg)" "maxBackups cfg = Some n" "0 < n"
  shows "clock \<noteq> [] \<Longrightarrow> dataFile s \<noteq> None \<Longrightarrow> backupDir s = Some es \<Longrightarrow> distinct (map fst es)
    \<Longrightarrow> distinct (backupNames (backups cfg clock s))
      \<and> greatest n (set (backupNames (backups cfg clock s)))
            (set (map backupFileName clock) \<union> set (backupNames s))"
proof (induction clock arbitrary: s es)
  case Nil
  then show ?case by simp
next
  case (Cons now rest)
  let ?s1 = "createBackup cfg now s"
  note step = createBackup_step [OF assms Cons.prems(2,3,4), of now]
  have b: "backups cfg (now # rest) s = backups cfg rest ?s1"
    by (simp add: backups_def manualBackup_def)
  show ?case
  proof (cases "rest = []")
    case True
    with step(2,4) show ?thesis by (simp add: backups_def manualBackup_def)
  next
    case False
    from step(1) obtain es1 where es1: "backupDir ?s1 = Some es1" "distinct (map fst es1)" by blast
    have "dataFile ?s1 \<noteq> None" using Cons.prems(2) by (simp add: dataFile_createBackup)
    from Cons.IH [OF False this es1]
    have d: "distinct (backupNames (backups cfg rest ?s1))"
      and g: "greatest n (set (backupNames (backups cfg rest ?s1)))
                (set (map backupFileName rest) \<union> set (backupNames ?s1))"
      by simp_all
    have "greatest n (set (backupNames (backups cfg rest ?s1)))
            (set (map backupFileName rest) \<union> insert (backupFileName now) (set (backupNames s)))"
    proof (rule greatest_union)
      show "finite (insert (backupFileName now) (set (backupNames s)))" by simp
      show "finite (set (map backupFileName rest))" by simp
      show "greatest n (set (backupNames ?s1)) (insert (backupFileName now) (set (backupNames s)))"
        by (rule step(4))
      show "greatest n (set (backupNames (backups cfg rest ?s1)))
              (set (map backupFileName rest) \<union> set (backupNames ?s1))"
        by (rule g)
    qed
    with d show ?thesis unfolding b by simp
  qed
qed

lemma names: "backupFileName clock0 = ''todos-backup-2024-01-01T00-00-00-000Z.json''"
  "backupFileName clock1 = ''todos-backup-2024-01-02T00-00-00-000Z.json''"
  "backupFileName clock2 = ''todos-backup-2024-01-03T00-00-00-000Z.json''"
  by (simp_all add: backupFileName_def clock0_def clock1_def clock2_def)

lemma oldDisk_alt: "oldDisk = \<lparr>dataFile = Some oldText, tempFile = None, backupDir = Some []\<rparr>"
  by (simp add: oldDisk_def oldText_def)

lemmas evalBackup = keepTwo_def DEFAULT_CONFIG_def createBackup_def fileExists_def copyFile_def
  cleanupOldBackups_def readdir_def todoBackups_def unlink_def names isBackupName_def
  startsWith_def endsWith_def

lemma backup_run:
  "createBackup keepTwo clock0 oldDisk
     = oldDisk\<lparr>backupDir := Some [(backupFileName clock0, oldText)]\<rparr>"
  "createBackup keepTwo clock1 (oldDisk\<lparr>backupDir := Some [(backupFileName clock0, oldText)]\<rparr>)
     = oldDisk\<lparr>backupDir := Some [(backupFileName clock0, oldText), (backupFileName clock1, oldText)]\<rparr>"
  "createBackup keepTwo clock2
     (oldDisk\<lparr>backupDir := Some [(backupFileName clock0, oldText), (backupFileName clock1, oldText)]\<rparr>)
     = oldDisk\<lparr>backupDir := Some [(backupFileName clock1, oldText), (backupFileName clock2, oldText)]\<rparr>"
  by (simp_all add: oldDisk_alt evalBackup)

text \<open>
  C9, as the code has it, for a maximum \<open>n\<close> of at least 1. The data file exists and the
  backup directory exists, with a backup path configured. After a backup is created,
  the backup files that remain are the \<open>n\<close> greatest names among the ones there before and
  the new one (all of them when there are no more than \<open>n\<close>): the excess files with the least
  names are deleted. After \<open>n + 1\<close> backups with different file names exactly \<open>n\<close> backup
  files remain, the \<open>n\<close> greatest names among the old and the new files.
\<close>

theorem backup_rotation:
  assumes "isSet (backupPath cfg)" and "maxBackups cfg = Some n" and "0 < n"
    and "dataFile s \<noteq> None" and "backupDir s = Some es" and "distinct (map fst es)"
  shows "greatest n (set (backupNames (createBackup cfg now s)))
           (insert (backupFileName now) (set (backupNames s)))
       \<and> (length clock = n + 1 \<and> distinct (map backupFileName clock) \<longrightarrow>
            length (backupNames (backups cfg clock s)) = n
            \<and> greatest n (set (backupNames (backups cfg clock s)))
                 (set (map backupFileName clock) \<union> set (backupNames s))
            \<and> set (backupNames (backups cfg clock s))
                 = set (newest n (remdups (map backupFileName clock @ backupNames s))))"
proof -
  have one: "greatest n (set (backupNames (createBackup cfg now s)))
           (insert (backupFileName now) (set (backupNames s)))"
    using assms by (rule createBackup_step(4))
  have many: "length (backupNames (backups cfg clock s)) = n
            \<and> greatest n (set (backupNames (backups cfg clock s)))
                 (set (map backupFileName clock) \<union> set (backupNames s))
            \<and> set (backupNames (backups cfg clock s))
                 = set (newest n (remdups (map backupFileName clock @ backupNames s)))"
    if l: "length clock = n + 1" and dc: "distinct (map backupFileName clock)"
  proof -
    let ?K = "set (backupNames (backups cfg clock s))"
    let ?S = "set (map backupFileName clock) \<union> set (backupNames s)"
    from l have "clock \<noteq> []" by auto
    from backups_greatest [OF assms(1-3) this assms(4-6)]
    have d: "distinct (backupNames (backups cfg clock s))" and g: "greatest n ?K ?S" by simp_all
    have "card (set (map backupFileName clock)) = n + 1"
      using distinct_card [OF dc] l by simp
    moreover have "card (set (map backupFileName clock)) \<le> card ?S"
      by (intro card_mono) auto
    ultimately have "n < card ?S" by simp
    with g have "card ?K = n" by (simp add: greatest_def)
    with d have len: "length (backupNames (backups cfg clock s)) = n"
      by (simp add: distinct_card)
    have "greatest n (set (newest n (remdups (map backupFileName clock @ backupNames s))))
            (set (remdups (map backupFileName clock @ backupNames s)))"
      by (intro greatest_newest) simp
    then have "greatest n (set (newest n (remdups (map backupFileName clock @ backupNames s)))) ?S"
      by simp
    with g have "?K = set (newest n (remdups (map backupFileName clock @ backupNames s)))"
      by (intro greatest_unique [of ?S n _ "set (newest n (remdups (map backupFileName clock @ backupNames s)))"]) simp_all
    with len g show ?thesis by blast
  qed
  from one many show ?thesis by blast
qed

theorem backup_rotation_witness:
  "isSet (backupPath keepTwo) \<and> maxBackups keepTwo = Some 2 \<and> (0::nat) < 2
   \<and> dataFile oldDisk \<noteq> None \<and> backupDir oldDisk = Some []
   \<and> length [clock0, clock1, clock2] = 2 + 1 \<and> distinct (map backupFileName [clock0, clock1, clock2])
   \<and> length (backupNames (backups keepTwo [clock0, clock1, clock2] oldDisk)) = 2
   \<and> backupNames (backups keepTwo [clock0, clock1, clock2] oldDisk)
       = [backupFileName clock1, backupFileName clock2]"
proof -
  have h: "isSet (backupPath keepTwo)" "maxBackups keepTwo = Some 2" "(0::nat) < 2"
    "dataFile oldDisk \<noteq> None" "backupDir oldDisk = Some []"
    "distinct (map fst ([] :: (string \<times> filetext) list))"
    by (simp_all add: keepTwo_def DEFAULT_CONFIG_def oldDisk_def)
  have c: "length [clock0, clock1, clock2] = 2 + 1 \<and> distinct (map backupFileName [clock0, clock1, clock2])"
    by (simp add: names)
  have e: "backupNames (backups keepTwo [clock0, clock1, clock2] oldDisk)
       = [backupFileName clock1, backupFileName clock2]"
    by (simp add: backups_def manualBackup_def backup_run backupNames_def
        isBackupName_backupFileName)
  from backup_rotation [OF h, of clock0 "[clock0, clock1, clock2]"] c
  have "length (backupNames (backups keepTwo [clock0, clock1, clock2] oldDisk)) = 2" by blast
  with h c e show ?thesis by blast
qed

text \<open>
  C9 as stated, for every maximum, fails at the maximum 0, which \<open>if (this.config.maxBackups)\<close>
  treats as no maximum: after 0 + 1 backups one backup file remains, not none.
\<close>

theorem backup_rotation_zero_counterexample:
  "maxBackups keepNone = Some 0
   \<and> backupNames oldDisk = []
   \<and> backupNames (backups keepNone [clock1] oldDisk) = [''todos-backup-2024-01-02T00-00-00-000Z.json'']"
  by (simp add: keepNone_def DEFAULT_CONFIG_def backupNames_def oldDisk_def backups_def
      manualBackup_def createBackup_def fileExists_def copyFile_def names
      isBackupName_def startsWith_def endsWith_def)

section \<open>The derived todo counts\<close>

lemma saveData_fields [simp]:
  "todos (snd (saveData now m)) = todos m"
  "categories (snd (saveData now m)) = categories m"
  "isInitialized (snd (saveData now m)) = isInitialized m"
  "config_autoSave (snd (saveData now m)) = config_autoSave m"
  "fileManager (snd (saveData now m)) = fileManager m"
  by (auto simp: saveData_def split: sum.splits prod.splits)

lemma autoSave_fields [simp]:
  "todos (snd (autoSave now m)) = todos m"
  "categories (snd (autoSave now m)) = categories m"
  "isInitialized (snd (autoSave now m)) = isInitialized m"
  "config_autoSave (snd (autoSave now m)) = config_autoSave m"
  "fileManager (snd (autoSave now m)) = fileManager m"
  by (simp_all add: autoSave_def)

lemma findIndex_Some:
  "findIndex P xs = Some i \<Longrightarrow> i < length xs \<and> P (xs ! i) \<and> (\<forall>j < i. \<not> P (xs ! j))"
proof (induction xs arbitrary: i)
  case Nil
  then show ?case by simp
next
  case (Cons x xs)
  show ?case
  proof (cases "P x")
    case True
    with Cons.prems show ?thesis by simp
  next
    case False
    with Cons.prems obtain i' where i': "findIndex P xs = Some i'" "i = Suc i'" by auto
    from Cons.IH [OF i'(1)] i'(2) False show ?thesis
      by (auto simp: less_Suc_eq_0_disj)
  qed
qed

lemma findIndex_None: "findIndex P xs = None \<longleftrightarrow> (\<forall>x \<in> set xs. \<not> P x)"
  by (induction xs) auto

lemma updateCategoryTodoCount_fields [simp]:
  "todos (snd (updateCategoryTodoCount cid m)) = todos m"
  "map catId (categories (snd (updateCategoryTodoCount cid m))) = map catId (categories m)"
  "isInitialized (snd (updateCategoryTodoCount cid m)) = isInitialized m"
  "config_autoSave (snd (updateCategoryTodoCount cid m)) = config_autoSave m"
  by (auto simp: updateCategoryTodoCount_def map_update list_update_same_conv
      split: option.splits sum.splits dest: findIndex_Some)

lemma updateCategoryTodoCount_initialized:
  assumes "isInitialized m"
  shows "fst (updateCategoryTodoCount cid m) = Inr ()"
  using assms
  by (auto simp: updateCategoryTodoCount_def getTodosByCategory_def ensureInitialized_def
      split: option.splits)

lemma countsConsistentExcept_empty: "countsConsistentExcept {} m = countsConsistent m"
  by (simp add: countsConsistentExcept_def countsConsistent_def)

lemma countsConsistentExcept_mono:
  "countsConsistentExcept A m \<Longrightarrow> A \<subseteq> B \<Longrightarrow> countsConsistentExcept B m"
  by (auto simp: countsConsistentExcept_def)

lemma updateCategoryTodoCount_consistent:
  assumes "isInitialized m" and "distinct (map catId (categories m))"
    and "countsConsistentExcept A m"
  shows "countsConsistentExcept (A - {cid}) (snd (updateCategoryTodoCount cid m))"
proof (cases "findIndex (\<lambda>cat. catId cat = cid) (categories m)")
  case None
  then have "\<forall>c \<in> set (categories m). catId c \<noteq> cid" by (simp add: findIndex_None)
  with assms(3) None show ?thesis
    by (auto simp: updateCategoryTodoCount_def countsConsistentExcept_def)
next
  case (Some i)
  let ?cs = "categories m"
  let ?c' = "(?cs ! i)\<lparr>todoCount := countOf m cid\<rparr>"
  from findIndex_Some [OF Some] have i: "i < length ?cs" "catId (?cs ! i) = cid" by auto
  have r: "snd (updateCategoryTodoCount cid m) = m\<lparr>categories := ?cs[i := ?c']\<rparr>"
    using Some assms(1)
    by (simp add: updateCategoryTodoCount_def getTodosByCategory_def ensureInitialized_def countOf_def)
  have "todoCount c = countOf m (catId c)"
    if c: "c \<in> set (?cs[i := ?c'])" and a: "catId c \<notin> A - {cid}" for c
  proof (cases "c = ?c'")
    case True
    with i show ?thesis by simp
  next
    case False
    with c have cin: "c \<in> set ?cs" using set_update_subset_insert [of ?cs i ?c'] by auto
    from c False obtain j where j: "j < length ?cs" "j \<noteq> i" "?cs ! j = c"
      by (metis (no_types, lifting) in_set_conv_nth length_list_update nth_list_update_eq nth_list_update_neq)
    with i assms(2) have "catId c \<noteq> cid"
      by (metis distinct_conv_nth length_map nth_map)
    with a have "catId c \<notin> A" by simp
    with assms(3) cin show ?thesis by (simp add: countsConsistentExcept_def)
  qed
  then show ?thesis
    unfolding r by (simp add: countsConsistentExcept_def countOf_def)
qed

lemma countsConsistentExcept_cong:
  "todos m' = todos m \<Longrightarrow> categories m' = categories m
   \<Longrightarrow> countsConsistentExcept A m' = countsConsistentExcept A m"
  by (simp add: countsConsistentExcept_def countOf_def)

lemma countsConsistentExcept_autoSave [simp]:
  "countsConsistentExcept A (snd (autoSave now m)) = countsConsistentExcept A m"
  by (rule countsConsistentExcept_cong) simp_all

subsection \<open>addTodo\<close>

lemma addTodo_unchanged:
  assumes "\<not> (isInitialized m \<and> validateTodoInput input = []
              \<and> list_ex (\<lambda>cat. catId cat = categoryId input) (categories m))"
  shows "snd (addTodo now uuid input m) = m" and "\<exists>e. fst (addTodo now uuid input m) = Inl e"
  using assms
  by (auto simp: addTodo_def ensureInitialized_def categoryExists_def)

lemma addTodo_state:
  assumes "isInitialized m" "validateTodoInput input = []"
    "list_ex (\<lambda>cat. catId cat = categoryId input) (categories m)"
  shows "snd (addTodo now uuid input m) =
           snd (autoSave now (snd (updateCategoryTodoCount (categoryId input)
                  (m\<lparr>todos := todos m @ [createTodo now uuid input]\<rparr>))))"
proof -
  let ?m1 = "m\<lparr>todos := todos m @ [createTodo now uuid input]\<rparr>"
  obtain r m2 where u: "updateCategoryTodoCount (categoryId input) ?m1 = (r, m2)" by force
  with updateCategoryTodoCount_initialized [of ?m1 "categoryId input"] assms(1)
  have r: "r = Inr ()" by simp
  obtain r3 m3 where a: "autoSave now m2 = (r3, m3)" by force
  show ?thesis
    using assms u r a
    by (cases r3) (simp_all add: addTodo_def ensureInitialized_def categoryExists_def)
qed

lemma filter_count_append1:
  "length (filter P (xs @ [x])) = length (filter P xs) + (if P x then 1 else 0)"
  by simp

lemma addTodo_counts:
  assumes "countsConsistent m" "distinct (map catId (categories m))"
  shows "countsConsistent (snd (addTodo now uuid input m))"
proof (cases "isInitialized m \<and> validateTodoInput input = []
              \<and> list_ex (\<lambda>cat. catId cat = categoryId input) (categories m)")
  case False
  with addTodo_unchanged(1) [OF False] assms show ?thesis by simp
next
  case True
  let ?m1 = "m\<lparr>todos := todos m @ [createTodo now uuid input]\<rparr>"
  have "categoryId (createTodo now uuid input) = categoryId input" by (simp add: createTodo_def)
  with assms(1) have "countsConsistentExcept {categoryId input} ?m1"
    by (auto simp: countsConsistent_def countsConsistentExcept_def countOf_def)
  from updateCategoryTodoCount_consistent [OF _ _ this, of "categoryId input"] True assms(2)
  have "countsConsistentExcept {} (snd (updateCategoryTodoCount (categoryId input) ?m1))" by simp
  with True show ?thesis
    by (simp add: addTodo_state countsConsistentExcept_empty [symmetric])
qed

lemma addTodo_ids:
  "map catId (categories (snd (addTodo now uuid input m))) = map catId (categories m)"
  "isInitialized (snd (addTodo now uuid input m)) = isInitialized m"
proof -
  show "map catId (categories (snd (addTodo now uuid input m))) = map catId (categories m)"
  proof (cases "isInitialized m \<and> validateTodoInput input = []
              \<and> list_ex (\<lambda>cat. catId cat = categoryId input) (categories m)")
    case False
    with addTodo_unchanged(1) [OF False] show ?thesis by simp
  next
    case True
    then show ?thesis by (simp add: addTodo_state)
  qed
  show "isInitialized (snd (addTodo now uuid input m)) = isInitialized m"
  proof (cases "isInitialized m \<and> validateTodoInput input = []
              \<and> list_ex (\<lambda>cat. catId cat = categoryId input) (categories m)")
    case False
    with addTodo_unchanged(1) [OF False] show ?thesis by simp
  next
    case True
    then show ?thesis by (simp add: addTodo_state)
  qed
qed

lemma addTodo_todos:
  "todos (snd (addTodo now uuid input m)) = todos m
   \<or> todos (snd (addTodo now uuid input m)) = todos m @ [createTodo now uuid input]"
proof (cases "isInitialized m \<and> validateTodoInput input = []
              \<and> list_ex (\<lambda>cat. catId cat = categoryId input) (categories m)")
  case False
  with addTodo_unchanged(1) [OF False] show ?thesis by simp
next
  case True
  then show ?thesis by (simp add: addTodo_state)
qed

subsection \<open>updateTodo\<close>

lemma updateTodo_unchanged:
  assumes "\<not> (isInitialized m \<and> findIndex (\<lambda>todo. todoId todo = i) (todos m) \<noteq> None
              \<and> validateTodoUpdate updates m = Inr ())"
  shows "snd (updateTodo now i updates m) = m" and "\<exists>e. fst (updateTodo now i updates m) = Inl e"
  using assms
  by (auto simp: updateTodo_def ensureInitialized_def split: option.splits sum.splits)

lemma updateTodo_state:
  assumes "isInitialized m" "findIndex (\<lambda>todo. todoId todo = i) (todos m) = Some k"
    "validateTodoUpdate updates m = Inr ()"
  shows "snd (updateTodo now i updates m) = snd (autoSave now (afterUpdate now k updates m))"
    and "fst (updateTodo now i updates m) =
           (case fst (autoSave now (afterUpdate now k updates m)) of
              Inl e \<Rightarrow> Inl e | Inr u \<Rightarrow> Inr True)"
proof -
  let ?m1 = "m\<lparr>todos := (todos m)[k := updatedTodo now k updates m]\<rparr>"
  let ?old = "categoryId (todos m ! k)"
  have i1: "isInitialized ?m1" using assms(1) by simp
  have u1: "updateCategoryTodoCount c ?m1 = (Inr (), snd (updateCategoryTodoCount c ?m1))" for c
    using updateCategoryTodoCount_initialized [OF i1, of c]
    by (metis prod.collapse)
  have u2: "updateCategoryTodoCount c (snd (updateCategoryTodoCount c' ?m1))
            = (Inr (), snd (updateCategoryTodoCount c (snd (updateCategoryTodoCount c' ?m1))))" for c c'
    using updateCategoryTodoCount_initialized [of "snd (updateCategoryTodoCount c' ?m1)" c] i1
    by (metis prod.collapse updateCategoryTodoCount_fields(3))
  have counts: "(case upd_categoryId updates of
           None \<Rightarrow> (Inr (), ?m1)
         | Some cid \<Rightarrow>
             if cid \<noteq> ?old then
               (case updateCategoryTodoCount ?old ?m1 of
                  (Inl e, m2) \<Rightarrow> (Inl e, m2)
                | (Inr u, m2) \<Rightarrow> updateCategoryTodoCount cid m2)
             else (Inr (), ?m1)) = (Inr (), afterUpdate now k updates m)"
  proof (cases "upd_categoryId updates")
    case None
    then show ?thesis by (simp add: afterUpdate_def)
  next
    case (Some cid)
    show ?thesis
    proof (cases "cid = ?old")
      case True
      with Some show ?thesis by (simp add: afterUpdate_def)
    next
      case False
      have "(case updateCategoryTodoCount ?old ?m1 of
                  (Inl e, m2) \<Rightarrow> (Inl e, m2)
                | (Inr u, m2) \<Rightarrow> updateCategoryTodoCount cid m2)
            = updateCategoryTodoCount cid (snd (updateCategoryTodoCount ?old ?m1))"
        by (subst u1) simp
      also have "\<dots> = (Inr (), snd (updateCategoryTodoCount cid (snd (updateCategoryTodoCount ?old ?m1))))"
        by (rule u2)
      finally show ?thesis using Some False by (simp add: afterUpdate_def)
    qed
  qed
  obtain r4 m4 where a: "autoSave now (afterUpdate now k updates m) = (r4, m4)" by force
  have "updateTodo now i updates m =
          (case (case upd_categoryId updates of
           None \<Rightarrow> (Inr (), ?m1)
         | Some cid \<Rightarrow>
             if cid \<noteq> ?old then
               (case updateCategoryTodoCount ?old ?m1 of
                  (Inl e, m2) \<Rightarrow> (Inl e, m2)
                | (Inr u, m2) \<Rightarrow> updateCategoryTodoCount cid m2)
             else (Inr (), ?m1)) of
             (Inl e, m3) \<Rightarrow> (Inl e, m3)
           | (Inr u, m3) \<Rightarrow>
               (case autoSave now m3 of
                  (Inl e, m4) \<Rightarrow> (Inl e, m4) | (Inr u, m4) \<Rightarrow> (Inr True, m4)))"
    using assms unfolding updateTodo_def ensureInitialized_def Let_def updatedTodo_def by simp
  then have "updateTodo now i updates m =
          (case autoSave now (afterUpdate now k updates m) of
             (Inl e, m4) \<Rightarrow> (Inl e, m4) | (Inr u, m4) \<Rightarrow> (Inr True, m4))"
    unfolding counts by simp
  then show "snd (updateTodo now i updates m) = snd (autoSave now (afterUpdate now k updates m))"
    and "fst (updateTodo now i updates m) =
           (case fst (autoSave now (afterUpdate now k updates m)) of
              Inl e \<Rightarrow> Inl e | Inr u \<Rightarrow> Inr True)"
    using a by (cases r4; simp)+
qed

lemma afterUpdate_fields [simp]:
  "todos (afterUpdate now k updates m) = (todos m)[k := updatedTodo now k updates m]"
  "map catId (categories (afterUpdate now k updates m)) = map catId (categories m)"
  "isInitialized (afterUpdate now k updates m) = isInitialized m"
  by (simp_all add: afterUpdate_def Let_def split: option.splits)

lemma filter_count_update:
  "k < length xs \<Longrightarrow> P (xs ! k) = P y
   \<Longrightarrow> length (filter P (xs[k := y])) = length (filter P xs)"
proof (induction xs arbitrary: k)
  case Nil
  then show ?case by simp
next
  case (Cons x xs)
  then show ?case by (cases k) auto
qed

lemma filter_count_splice1:
  "k < length xs \<Longrightarrow> \<not> P (xs ! k)
   \<Longrightarrow> length (filter P (splice1 k xs)) = length (filter P xs)"
proof (induction xs arbitrary: k)
  case Nil
  then show ?case by simp
next
  case (Cons x xs)
  then show ?case by (cases k) (auto simp: splice1_def)
qed

lemma categoryId_updatedTodo:
  "categoryId (updatedTodo now k updates m) =
     (case upd_categoryId updates of None \<Rightarrow> categoryId (todos m ! k) | Some cid \<Rightarrow> cid)"
  by (simp add: updatedTodo_def applyTodoUpdate_def handleCompletion_def split: option.splits)

lemma afterUpdate_counts:
  assumes "countsConsistent m" "distinct (map catId (categories m))" "isInitialized m"
    and "k < length (todos m)"
  shows "countsConsistent (afterUpdate now k updates m)"
proof -
  let ?t = "updatedTodo now k updates m"
  let ?m1 = "m\<lparr>todos := (todos m)[k := ?t]\<rparr>"
  let ?old = "categoryId (todos m ! k)"
  have ex: "countsConsistentExcept {?old, categoryId ?t} ?m1"
    using assms(1,4)
    by (auto simp: countsConsistent_def countsConsistentExcept_def countOf_def filter_count_update)
  show ?thesis
  proof (cases "categoryId ?t = ?old")
    case True
    have "countsConsistent ?m1"
      using assms(1,4) True
      by (auto simp: countsConsistent_def countOf_def filter_count_update)
    moreover from True have "afterUpdate now k updates m = ?m1"
      by (auto simp: afterUpdate_def categoryId_updatedTodo split: option.splits)
    ultimately show ?thesis by simp
  next
    case False
    then obtain cid where c: "upd_categoryId updates = Some cid" "cid \<noteq> ?old" "categoryId ?t = cid"
      by (auto simp: categoryId_updatedTodo split: option.splits)
    let ?m2 = "snd (updateCategoryTodoCount ?old ?m1)"
    have i1: "isInitialized ?m1" and d1: "distinct (map catId (categories ?m1))"
      using assms(2,3) by simp_all
    from ex c have "countsConsistentExcept {?old, cid} ?m1" by simp
    from updateCategoryTodoCount_consistent [OF i1 d1 this, of ?old]
    have e2: "countsConsistentExcept ({?old, cid} - {?old}) ?m2" .
    have i2: "isInitialized ?m2" and d2: "distinct (map catId (categories ?m2))"
      using assms(2,3) by simp_all
    from updateCategoryTodoCount_consistent [OF i2 d2 e2, of cid]
    have "countsConsistentExcept ({?old, cid} - {?old} - {cid}) (snd (updateCategoryTodoCount cid ?m2))" .
    moreover have "{?old, cid} - {?old} - {cid} = {}" by auto
    ultimately show ?thesis
      using c by (simp add: afterUpdate_def countsConsistentExcept_empty)
  qed
qed

lemma updateTodo_counts:
  assumes "countsConsistent m" "distinct (map catId (categories m))"
  shows "countsConsistent (snd (updateTodo now i updates m))"
proof (cases "isInitialized m \<and> findIndex (\<lambda>todo. todoId todo = i) (todos m) \<noteq> None
              \<and> validateTodoUpdate updates m = Inr ()")
  case False
  with updateTodo_unchanged(1) [OF False] assms show ?thesis by simp
next
  case True
  then obtain k where k: "findIndex (\<lambda>todo. todoId todo = i) (todos m) = Some k" by auto
  from findIndex_Some [OF k] have "k < length (todos m)" by simp
  from afterUpdate_counts [OF assms _ this, of now updates] True
  have "countsConsistent (afterUpdate now k updates m)" by simp
  with True k show ?thesis
    by (simp add: updateTodo_state(1) countsConsistentExcept_empty [symmetric])
qed

lemma updateTodo_ids:
  "map catId (categories (snd (updateTodo now i updates m))) = map catId (categories m)
   \<and> isInitialized (snd (updateTodo now i updates m)) = isInitialized m"
proof (cases "isInitialized m \<and> findIndex (\<lambda>todo. todoId todo = i) (todos m) \<noteq> None
              \<and> validateTodoUpdate updates m = Inr ()")
  case False
  with updateTodo_unchanged(1) [OF False] show ?thesis by simp
next
  case True
  then obtain k where k: "findIndex (\<lambda>todo. todoId todo = i) (todos m) = Some k" by auto
  with True show ?thesis by (simp add: updateTodo_state(1))
qed

subsection \<open>deleteTodo and toggleTodoCompletion\<close>

lemma deleteTodo_unchanged:
  assumes "\<not> (isInitialized m \<and> findIndex (\<lambda>todo. todoId todo = i) (todos m) \<noteq> None)"
  shows "snd (deleteTodo now i m) = m" and "\<exists>e. fst (deleteTodo now i m) = Inl e"
  using assms
  by (auto simp: deleteTodo_def ensureInitialized_def split: option.splits)

lemma deleteTodo_state:
  assumes "isInitialized m" "findIndex (\<lambda>todo. todoId todo = i) (todos m) = Some k"
  shows "snd (deleteTodo now i m) =
           snd (autoSave now (snd (updateCategoryTodoCount (categoryId (todos m ! k))
                  (m\<lparr>todos := splice1 k (todos m)\<rparr>))))"
proof -
  let ?m1 = "m\<lparr>todos := splice1 k (todos m)\<rparr>"
  obtain r m2 where u: "updateCategoryTodoCount (categoryId (todos m ! k)) ?m1 = (r, m2)" by force
  with updateCategoryTodoCount_initialized [of ?m1 "categoryId (todos m ! k)"] assms(1)
  have r: "r = Inr ()" by simp
  obtain r3 m3 where a: "autoSave now m2 = (r3, m3)" by force
  show ?thesis
    using assms u r a by (cases r3) (simp_all add: deleteTodo_def ensureInitialized_def)
qed

lemma deleteTodo_counts:
  assumes "countsConsistent m" "distinct (map catId (categories m))"
  shows "countsConsistent (snd (deleteTodo now i m))"
proof (cases "isInitialized m \<and> findIndex (\<lambda>todo. todoId todo = i) (todos m) \<noteq> None")
  case False
  with deleteTodo_unchanged(1) [OF False] assms show ?thesis by simp
next
  case True
  then obtain k where k: "findIndex (\<lambda>todo. todoId todo = i) (todos m) = Some k" by auto
  from findIndex_Some [OF k] have kl: "k < length (todos m)" by simp
  let ?m1 = "m\<lparr>todos := splice1 k (todos m)\<rparr>"
  let ?c = "categoryId (todos m ! k)"
  have ex: "countsConsistentExcept {?c} ?m1"
    using assms(1) kl
    by (auto simp: countsConsistent_def countsConsistentExcept_def countOf_def filter_count_splice1)
  have i1: "isInitialized ?m1" and d1: "distinct (map catId (categories ?m1))"
    using True assms(2) by simp_all
  from updateCategoryTodoCount_consistent [OF i1 d1 ex, of ?c]
  have "countsConsistentExcept {} (snd (updateCategoryTodoCount ?c ?m1))" by simp
  with True k show ?thesis
    by (simp add: deleteTodo_state countsConsistentExcept_empty [symmetric])
qed

lemma deleteTodo_ids:
  "map catId (categories (snd (deleteTodo now i m))) = map catId (categories m)
   \<and> isInitialized (snd (deleteTodo now i m)) = isInitialized m"
proof (cases "isInitialized m \<and> findIndex (\<lambda>todo. todoId todo = i) (todos m) \<noteq> None")
  case False
  with deleteTodo_unchanged(1) [OF False] show ?thesis by simp
next
  case True
  then obtain k where k: "findIndex (\<lambda>todo. todoId todo = i) (todos m) = Some k" by auto
  with True show ?thesis by (simp add: deleteTodo_state)
qed

lemma toggleTodoCompletion_cases:
  "snd (toggleTodoCompletion now i m) = m
   \<or> (\<exists>c. toggleTodoCompletion now i m
            = updateTodo now i (noUpdate\<lparr>upd_completed := Some c\<rparr>) m)"
  by (auto simp: toggleTodoCompletion_def ensureInitialized_def getTodoById_def
      split: option.splits sum.splits)

subsection \<open>Category operations\<close>

lemma addCategory_unchanged:
  assumes "\<not> (isInitialized m \<and> validateCategoryInput input = []
              \<and> isNameUnique (name input) (categories m))"
  shows "snd (addCategory now uuid input m) = m" and "\<exists>e. fst (addCategory now uuid input m) = Inl e"
  using assms by (auto simp: addCategory_def ensureInitialized_def)

lemma addCategory_state:
  assumes "isInitialized m" "validateCategoryInput input = []"
    "isNameUnique (name input) (categories m)"
  shows "snd (addCategory now uuid input m) =
           snd (autoSave now (m\<lparr>categories := categories m @ [createCategory uuid input]\<rparr>))"
proof -
  obtain r m2 where a: "autoSave now (m\<lparr>categories := categories m @ [createCategory uuid input]\<rparr>) = (r, m2)"
    by force
  show ?thesis using assms a by (cases r) (simp_all add: addCategory_def ensureInitialized_def)
qed

lemma addCategory_counts:
  assumes "countsConsistent m" and "uuid \<notin> categoryId ` set (todos m)"
  shows "countsConsistent (snd (addCategory now uuid input m))"
proof (cases "isInitialized m \<and> validateCategoryInput input = []
              \<and> isNameUnique (name input) (categories m)")
  case False
  with addCategory_unchanged(1) [OF False] assms show ?thesis by simp
next
  case True
  have "filter (\<lambda>t. categoryId t = uuid) (todos m) = []"
    using assms(2) by (auto simp: filter_empty_conv)
  with assms(1) have "countsConsistent (m\<lparr>categories := categories m @ [createCategory uuid input]\<rparr>)"
    by (auto simp: countsConsistent_def countOf_def createCategory_def)
  with True show ?thesis
    by (simp add: addCategory_state countsConsistentExcept_empty [symmetric])
qed

lemma addCategory_ids:
  "map catId (categories (snd (addCategory now uuid input m))) = map catId (categories m)
   \<or> map catId (categories (snd (addCategory now uuid input m))) = map catId (categories m) @ [uuid]"
  "isInitialized (snd (addCategory now uuid input m)) = isInitialized m"
  "todos (snd (addCategory now uuid input m)) = todos m"
proof -
  consider (u) "snd (addCategory now uuid input m) = m"
    | (s) "snd (addCategory now uuid input m) =
           snd (autoSave now (m\<lparr>categories := categories m @ [createCategory uuid input]\<rparr>))"
    using addCategory_unchanged(1) addCategory_state by blast
  then show "map catId (categories (snd (addCategory now uuid input m))) = map catId (categories m)
   \<or> map catId (categories (snd (addCategory now uuid input m))) = map catId (categories m) @ [uuid]"
    "isInitialized (snd (addCategory now uuid input m)) = isInitialized m"
    "todos (snd (addCategory now uuid input m)) = todos m"
    by (cases; simp add: createCategory_def)+
qed

lemma updateCategory_unchanged:
  assumes "\<not> (isInitialized m \<and> findIndex (\<lambda>cat. catId cat = i) (categories m) \<noteq> None
              \<and> validateCategoryUpdate i updates m = Inr ())"
  shows "snd (updateCategory now i updates m) = m"
    and "\<exists>e. fst (updateCategory now i updates m) = Inl e"
  using assms
  by (auto simp: updateCategory_def ensureInitialized_def split: option.splits sum.splits)

lemma updateCategory_state:
  assumes "isInitialized m" "findIndex (\<lambda>cat. catId cat = i) (categories m) = Some k"
    "validateCategoryUpdate i updates m = Inr ()"
  shows "snd (updateCategory now i updates m) =
           snd (autoSave now
                  (m\<lparr>categories := (categories m)[k := applyCategoryUpdate (categories m ! k) updates]\<rparr>))"
    and "fst (updateCategory now i updates m) =
           (case fst (autoSave now
                  (m\<lparr>categories := (categories m)[k := applyCategoryUpdate (categories m ! k) updates]\<rparr>)) of
              Inl e \<Rightarrow> Inl e | Inr u \<Rightarrow> Inr True)"
proof -
  obtain r m2 where a: "autoSave now
     (m\<lparr>categories := (categories m)[k := applyCategoryUpdate (categories m ! k) updates]\<rparr>) = (r, m2)"
    by force
  show "snd (updateCategory now i updates m) =
           snd (autoSave now
                  (m\<lparr>categories := (categories m)[k := applyCategoryUpdate (categories m ! k) updates]\<rparr>))"
    and "fst (updateCategory now i updates m) =
           (case fst (autoSave now
                  (m\<lparr>categories := (categories m)[k := applyCategoryUpdate (categories m ! k) updates]\<rparr>)) of
              Inl e \<Rightarrow> Inl e | Inr u \<Rightarrow> Inr True)"
    using assms a by (cases r; simp add: updateCategory_def ensureInitialized_def)+
qed

lemma updateCategory_preserves:
  "map catId (categories (snd (updateCategory now i updates m))) = map catId (categories m)"
  "map todoCount (categories (snd (updateCategory now i updates m))) = map todoCount (categories m)"
  "todos (snd (updateCategory now i updates m)) = todos m"
  "isInitialized (snd (updateCategory now i updates m)) = isInitialized m"
proof -
  let ?P = "map catId (categories (snd (updateCategory now i updates m))) = map catId (categories m)
    \<and> map todoCount (categories (snd (updateCategory now i updates m))) = map todoCount (categories m)
    \<and> todos (snd (updateCategory now i updates m)) = todos m
    \<and> isInitialized (snd (updateCategory now i updates m)) = isInitialized m"
  have ?P
  proof (cases "isInitialized m \<and> findIndex (\<lambda>cat. catId cat = i) (categories m) \<noteq> None
              \<and> validateCategoryUpdate i updates m = Inr ()")
    case False
    from updateCategory_unchanged(1) [OF False] show ?thesis by simp
  next
    case True
    then obtain k where k: "findIndex (\<lambda>cat. catId cat = i) (categories m) = Some k" by auto
    from findIndex_Some [OF k] have kl: "k < length (categories m)" by simp
    let ?c = "applyCategoryUpdate (categories m ! k) updates"
    have c: "catId ?c = catId (categories m ! k)" "todoCount ?c = todoCount (categories m ! k)"
      by (simp_all add: applyCategoryUpdate_def)
    have "map catId ((categories m)[k := ?c]) = map catId (categories m)"
      "map todoCount ((categories m)[k := ?c]) = map todoCount (categories m)"
      using kl c by (simp_all add: map_update list_update_same_conv)
    with True k show ?thesis by (simp add: updateCategory_state(1))
  qed
  then show "map catId (categories (snd (updateCategory now i updates m))) = map catId (categories m)"
  "map todoCount (categories (snd (updateCategory now i updates m))) = map todoCount (categories m)"
  "todos (snd (updateCategory now i updates m)) = todos m"
  "isInitialized (snd (updateCategory now i updates m)) = isInitialized m"
    by blast+
qed

lemma countsConsistent_alt:
  "countsConsistent m =
     (map todoCount (categories m) = map (\<lambda>c. countOf m (catId c)) (categories m))"
  by (auto simp: countsConsistent_def)

lemma updateCategory_counts:
  assumes "countsConsistent m"
  shows "countsConsistent (snd (updateCategory now i updates m))"
proof -
  let ?m' = "snd (updateCategory now i updates m)"
  have "map (\<lambda>c. countOf ?m' (catId c)) (categories ?m') = map (countOf ?m') (map catId (categories ?m'))"
    by simp
  also have "\<dots> = map (countOf m) (map catId (categories m))"
    by (simp only: updateCategory_preserves(1)) (simp add: countOf_def updateCategory_preserves(3))
  finally show ?thesis
    using assms by (simp add: countsConsistent_alt updateCategory_preserves(2) comp_def)
qed

subsection \<open>deleteCategory\<close>

lemma moveTodos_invariant:
  "countsInvariant m \<Longrightarrow>
     countsInvariant (snd (moveTodos now target ts m))
     \<and> map catId (categories (snd (moveTodos now target ts m))) = map catId (categories m)
     \<and> isInitialized (snd (moveTodos now target ts m)) = isInitialized m"
proof (induction ts arbitrary: m)
  case Nil
  then show ?case by simp
next
  case (Cons t ts)
  let ?u = "updateTodo now (todoId t) (noUpdate\<lparr>upd_categoryId := Some target\<rparr>) m"
  obtain r m1 where u: "?u = (r, m1)" by force
  have m1: "countsInvariant m1" "map catId (categories m1) = map catId (categories m)"
    "isInitialized m1 = isInitialized m"
    using Cons.prems u updateTodo_counts [of m now "todoId t" "noUpdate\<lparr>upd_categoryId := Some target\<rparr>"]
      updateTodo_ids [of now "todoId t" "noUpdate\<lparr>upd_categoryId := Some target\<rparr>" m]
    by (simp_all add: countsInvariant_def)
  show ?case
  proof (cases r)
    case (Inl e)
    with u m1 show ?thesis by simp
  next
    case (Inr b)
    with u m1 Cons.IH [OF m1(1)] show ?thesis by simp
  qed
qed

lemma deleteTodos_invariant:
  "countsInvariant m \<Longrightarrow>
     countsInvariant (snd (deleteTodos now ts m))
     \<and> map catId (categories (snd (deleteTodos now ts m))) = map catId (categories m)
     \<and> isInitialized (snd (deleteTodos now ts m)) = isInitialized m"
proof (induction ts arbitrary: m)
  case Nil
  then show ?case by simp
next
  case (Cons t ts)
  obtain r m1 where u: "deleteTodo now (todoId t) m = (r, m1)" by force
  have m1: "countsInvariant m1" "map catId (categories m1) = map catId (categories m)"
    "isInitialized m1 = isInitialized m"
    using Cons.prems u deleteTodo_counts [of m now "todoId t"] deleteTodo_ids [of now "todoId t" m]
    by (simp_all add: countsInvariant_def)
  show ?case
  proof (cases r)
    case (Inl e)
    with u m1 show ?thesis by simp
  next
    case (Inr b)
    with u m1 Cons.IH [OF m1(1)] show ?thesis by simp
  qed
qed

lemma resolveTodos_invariant:
  assumes "countsInvariant m"
  shows "countsInvariant (snd (resolveTodos now moveTo ts m))
     \<and> map catId (categories (snd (resolveTodos now moveTo ts m))) = map catId (categories m)
     \<and> isInitialized (snd (resolveTodos now moveTo ts m)) = isInitialized m"
proof -
  have "snd (resolveTodos now moveTo ts m) = m
      \<or> snd (resolveTodos now moveTo ts m) = snd (moveTodos now (the moveTo) ts m)
      \<or> snd (resolveTodos now moveTo ts m) = snd (deleteTodos now ts m)"
    by (cases "categoryExists (the moveTo) m") (auto simp: resolveTodos_def)
  then consider (same) "snd (resolveTodos now moveTo ts m) = m"
    | (move) target where "snd (resolveTodos now moveTo ts m) = snd (moveTodos now target ts m)"
    | (delete) "snd (resolveTodos now moveTo ts m) = snd (deleteTodos now ts m)"
    by blast
  then show ?thesis
  proof cases
    case same
    with assms show ?thesis by simp
  next
    case move
    with moveTodos_invariant [OF assms] show ?thesis by simp
  next
    case delete
    with deleteTodos_invariant [OF assms] show ?thesis by simp
  qed
qed

lemma distinct_splice1: "distinct xs \<Longrightarrow> distinct (splice1 k xs)"
proof -
  assume "distinct xs"
  then have "distinct (take k xs @ drop k xs)" by simp
  then have "set (take k xs) \<inter> set (drop k xs) = {}"
    unfolding distinct_append by blast
  moreover have "distinct (take k xs)" "distinct (drop (Suc k) xs)"
    using \<open>distinct xs\<close> by simp_all
  moreover have "set (drop (Suc k) xs) \<subseteq> set (drop k xs)"
    using set_drop_subset_set_drop [of k "Suc k" xs] by simp
  ultimately show ?thesis unfolding splice1_def distinct_append by blast
qed

lemma map_splice1: "map f (splice1 k xs) = splice1 k (map f xs)"
  by (simp add: splice1_def take_map drop_map)

lemma set_splice1: "set (splice1 k xs) \<subseteq> set xs"
  using set_take_subset [of k xs] set_drop_subset [of "Suc k" xs] by (auto simp: splice1_def)

lemma countsInvariant_splice1:
  assumes "countsInvariant m"
  shows "countsInvariant (m\<lparr>categories := splice1 k (categories m)\<rparr>)"
  using assms set_splice1 [of k "categories m"]
  by (auto simp: countsInvariant_def countsConsistent_def countOf_def map_splice1 distinct_splice1)

lemma countsInvariant_autoSave [simp]: "countsInvariant (snd (autoSave now m)) = countsInvariant m"
  by (simp add: countsInvariant_def countsConsistentExcept_empty [symmetric])

lemma deleteCategory_cases:
  "snd (deleteCategory now i moveTo m) = m
   \<or> (\<exists>k ts. snd (deleteCategory now i moveTo m) = snd (resolveTodos now moveTo ts m)
         \<or> snd (deleteCategory now i moveTo m) =
             snd (autoSave now ((snd (resolveTodos now moveTo ts m))
                    \<lparr>categories := splice1 k (categories (snd (resolveTodos now moveTo ts m)))\<rparr>)))"
proof (cases "isInitialized m")
  case False
  then show ?thesis by (simp add: deleteCategory_def ensureInitialized_def)
next
  case True
  show ?thesis
  proof (cases "findIndex (\<lambda>cat. catId cat = i) (categories m)")
    case None
    with True show ?thesis by (simp add: deleteCategory_def ensureInitialized_def)
  next
    case (Some k)
    let ?ts = "filter (\<lambda>todo. categoryId todo = i) (todos m)"
    obtain r m1 where r: "resolveTodos now moveTo ?ts m = (r, m1)" by force
    obtain r2 m2 where a: "autoSave now (m1\<lparr>categories := splice1 k (categories m1)\<rparr>) = (r2, m2)"
      by force
    have "snd (deleteCategory now i moveTo m) = m1 \<or> snd (deleteCategory now i moveTo m) = m2"
      using True Some r a
      by (cases r; cases r2)
        (simp_all add: deleteCategory_def ensureInitialized_def getTodosByCategory_def)
    with r a show ?thesis by (metis snd_conv)
  qed
qed

lemma deleteCategory_invariant:
  assumes "countsInvariant m"
  shows "countsInvariant (snd (deleteCategory now i moveTo m))"
proof -
  from deleteCategory_cases [of now i moveTo m]
  consider "snd (deleteCategory now i moveTo m) = m"
    | ts where "snd (deleteCategory now i moveTo m) = snd (resolveTodos now moveTo ts m)"
    | k ts where "snd (deleteCategory now i moveTo m) =
             snd (autoSave now ((snd (resolveTodos now moveTo ts m))
                    \<lparr>categories := splice1 k (categories (snd (resolveTodos now moveTo ts m)))\<rparr>))"
    by blast
  then show ?thesis
  proof cases
    case 1
    with assms show ?thesis by simp
  next
    case 2
    with resolveTodos_invariant [OF assms] show ?thesis by simp
  next
    case 3
    with resolveTodos_invariant [OF assms, of now moveTo ts] show ?thesis
      by (simp add: countsInvariant_splice1)
  qed
qed

subsection \<open>initialize\<close>

lemma recount_counts:
  "recount m cs = Inr cs' \<Longrightarrow>
     map catId cs' = map catId cs \<and> (\<forall>c \<in> set cs'. todoCount c = countOf m (catId c))
     \<and> (cs \<noteq> [] \<longrightarrow> isInitialized m)"
proof (induction cs arbitrary: cs')
  case Nil
  then show ?case by simp
next
  case (Cons c cs)
  from Cons.prems obtain rest where r: "recount m cs = Inr rest"
    and i: "isInitialized m"
    and cs': "cs' = c\<lparr>todoCount := countOf m (catId c)\<rparr> # rest"
    by (auto simp: getTodosByCategory_def ensureInitialized_def countOf_def
        split: sum.splits if_splits)
  from Cons.IH [OF r] cs' i show ?case by simp
qed

lemma initialize_counts:
  assumes "fst (initialize now uuidv4 m) = Inr ()"
  shows "countsConsistent (snd (initialize now uuidv4 m))"
    and "\<not> isInitialized m \<Longrightarrow> categories (snd (initialize now uuidv4 m)) = []"
proof -
  from assms obtain m2 cs where r: "recount m2 (categories m2) = Inr cs"
    and s: "snd (initialize now uuidv4 m) = m2\<lparr>categories := cs, isInitialized := True\<rparr>"
    and u: "\<not> isInitialized m \<Longrightarrow> \<not> isInitialized m2"
    by (auto simp: initialize_def Let_def updateCategoryTodoCounts_def createDefaultCategories_def
        createDefaults_uninitialized split: sum.splits option.splits prod.splits if_splits)
  from recount_counts [OF r] show "countsConsistent (snd (initialize now uuidv4 m))"
    by (simp add: s countsConsistent_def countOf_def)
  show "categories (snd (initialize now uuidv4 m)) = []" if "\<not> isInitialized m"
  proof -
    from u [OF that] recount_counts [OF r] have "categories m2 = []" by auto
    with r s show ?thesis by simp
  qed
qed

lemma filter_count_update_leave:
  "k < length xs \<Longrightarrow> P (xs ! k) \<Longrightarrow> \<not> P y
   \<Longrightarrow> length (filter P (xs[k := y])) + 1 = length (filter P xs)"
proof (induction xs arbitrary: k)
  case Nil
  then show ?case by simp
next
  case (Cons x xs)
  then show ?case by (cases k) auto
qed

lemma filter_count_update_enter:
  "k < length xs \<Longrightarrow> \<not> P (xs ! k) \<Longrightarrow> P y
   \<Longrightarrow> length (filter P (xs[k := y])) = length (filter P xs) + 1"
proof (induction xs arbitrary: k)
  case Nil
  then show ?case by simp
next
  case (Cons x xs)
  then show ?case by (cases k) auto
qed

lemma perform_invariant:
  assumes "countsInvariant m" "freshFor op m"
  shows "countsInvariant (perform now op m)"
proof (cases op)
  case (AddTodo uuid input)
  with assms addTodo_counts [of m now uuid input] addTodo_ids(1) [of now uuid input m]
  show ?thesis by (simp add: countsInvariant_def)
next
  case (UpdateTodo i updates)
  with assms updateTodo_counts [of m now i updates] updateTodo_ids [of now i updates m]
  show ?thesis by (simp add: countsInvariant_def)
next
  case (DeleteTodo i)
  with assms deleteTodo_counts [of m now i] deleteTodo_ids [of now i m]
  show ?thesis by (simp add: countsInvariant_def)
next
  case (ToggleTodoCompletion i)
  from toggleTodoCompletion_cases [of now i m]
  show ?thesis
  proof
    assume "snd (toggleTodoCompletion now i m) = m"
    with assms ToggleTodoCompletion show ?thesis by simp
  next
    assume "\<exists>c. toggleTodoCompletion now i m = updateTodo now i (noUpdate\<lparr>upd_completed := Some c\<rparr>) m"
    then obtain c where
      "toggleTodoCompletion now i m = updateTodo now i (noUpdate\<lparr>upd_completed := Some c\<rparr>) m" ..
    with assms ToggleTodoCompletion
      updateTodo_counts [of m now i "noUpdate\<lparr>upd_completed := Some c\<rparr>"]
      updateTodo_ids [of now i "noUpdate\<lparr>upd_completed := Some c\<rparr>" m]
    show ?thesis by (simp add: countsInvariant_def)
  qed
next
  case (AddCategory uuid input)
  with assms have f: "uuid \<notin> catId ` set (categories m)" "uuid \<notin> categoryId ` set (todos m)"
    by simp_all
  from addCategory_counts [OF _ f(2), of now input] assms(1)
  have "countsConsistent (snd (addCategory now uuid input m))" by (simp add: countsInvariant_def)
  moreover have "distinct (map catId (categories (snd (addCategory now uuid input m))))"
    using addCategory_ids(1) [of now uuid input m] assms(1) f(1)
    by (auto simp: countsInvariant_def)
  ultimately show ?thesis using AddCategory by (simp add: countsInvariant_def)
next
  case (UpdateCategory i updates)
  with assms updateCategory_counts [of m now i updates] updateCategory_preserves(1) [of now i updates m]
  show ?thesis by (simp add: countsInvariant_def)
next
  case (DeleteCategory i moveTo)
  with deleteCategory_invariant [OF assms(1), of now i moveTo] show ?thesis by simp
qed

lemma updateTodo_moves_count:
  assumes "isInitialized m" "findIndex (\<lambda>todo. todoId todo = j) (todos m) = Some k"
    "validateTodoUpdate upd m = Inr ()" "upd_categoryId upd = Some dst"
    "dst \<noteq> categoryId (todos m ! k)"
  shows "countOf (snd (updateTodo now j upd m)) (categoryId (todos m ! k))
           = countOf m (categoryId (todos m ! k)) - 1"
    and "countOf (snd (updateTodo now j upd m)) dst = countOf m dst + 1"
proof -
  from findIndex_Some [OF assms(2)] have kl: "k < length (todos m)" by simp
  have t: "todos (snd (updateTodo now j upd m)) = (todos m)[k := updatedTodo now k upd m]"
    using assms(1-3) by (simp add: updateTodo_state(1))
  have c: "categoryId (updatedTodo now k upd m) = dst"
    using assms(4) by (simp add: categoryId_updatedTodo)
  from filter_count_update_leave [of k "todos m" "\<lambda>t. categoryId t = categoryId (todos m ! k)"
      "updatedTodo now k upd m"] kl c assms(5)
  show "countOf (snd (updateTodo now j upd m)) (categoryId (todos m ! k))
           = countOf m (categoryId (todos m ! k)) - 1"
    by (simp add: countOf_def t)
  from filter_count_update_enter [of k "todos m" "\<lambda>t. categoryId t = dst"
      "updatedTodo now k upd m"] kl c assms(5)
  show "countOf (snd (updateTodo now j upd m)) dst = countOf m dst + 1"
    by (simp add: countOf_def t)
qed

lemmas evalManager = testManager_def ensureInitialized_def categoryExists_def
  getTodosByCategory_def updateCategoryTodoCount_def autoSave_def milk_def work_def home_def
  milkInput_def

lemma validate_milkInput: "validateTodoInput milkInput = []"
  by (simp add: validateTodoInput_def milkInput_def validateTitle_def validateDescription_def
      validatePriority_def validateCategoryId_def validateDueDate_def trim_def isWhiteSpace_def)

lemma count_run:
  "addTodo clock0 ''t-1'' milkInput twoCategories = (Inr milk, testManager False [milk] [work, home])"
  "updateTodo clock1 ''t-1'' (noUpdate\<lparr>upd_categoryId := Some ''c-2''\<rparr>)
       (testManager False [milk] [work, home])
     = (Inr True, testManager False [milk\<lparr>categoryId := ''c-2''\<rparr>]
                    [work\<lparr>todoCount := 0\<rparr>, home\<lparr>todoCount := 1\<rparr>])"
  "deleteTodo clock1 ''t-1''
       (testManager False [milk\<lparr>categoryId := ''c-2''\<rparr>]
          [work\<lparr>todoCount := 0\<rparr>, home\<lparr>todoCount := 1\<rparr>])
     = (Inr True, twoCategories)"
  "updateCategory clock1 ''c-2'' \<lparr>upd_name = None, upd_color = None, upd_todoCount = Some 99\<rparr>
       (testManager False [milk] [work, home])
     = (Inr True, testManager False [milk] [work, home])"
     apply (simp add: addTodo_def validate_milkInput [unfolded milkInput_def] twoCategories_def evalManager createTodo_def)
    apply (simp add: updateTodo_def validateTodoUpdate_def noUpdate_def handleCompletion_def
      applyTodoUpdate_def evalManager)
   apply (simp add: deleteTodo_def splice1_def twoCategories_def evalManager)
  apply (simp add: updateCategory_def validateCategoryUpdate_def applyCategoryUpdate_def evalManager)
  done



section \<open>The completion timestamp\<close>

lemma updatedTodo_consistent:
  assumes "completionConsistent (todos m ! k)" "upd_completedAt updates = None"
  shows "completionConsistent (updatedTodo now k updates m)"
  using assms
  by (auto simp: completionConsistent_def updatedTodo_def applyTodoUpdate_def handleCompletion_def
      split: option.splits)

lemma updatedTodo_transition:
  assumes "upd_completed updates = Some c" "c \<noteq> completed (todos m ! k)"
  shows "completed (updatedTodo now k updates m) = c"
    and "completedAt (updatedTodo now k updates m) = (if c then Some (Date now) else None)"
  using assms
  by (auto simp: updatedTodo_def applyTodoUpdate_def handleCompletion_def)

lemma updateTodo_completion:
  assumes "\<forall>t \<in> set (todos m). completionConsistent t" "upd_completedAt updates = None"
  shows "\<forall>t \<in> set (todos (snd (updateTodo now i updates m))). completionConsistent t"
proof (cases "isInitialized m \<and> findIndex (\<lambda>todo. todoId todo = i) (todos m) \<noteq> None
              \<and> validateTodoUpdate updates m = Inr ()")
  case False
  with updateTodo_unchanged(1) [OF False] assms show ?thesis by simp
next
  case True
  then obtain k where k: "findIndex (\<lambda>todo. todoId todo = i) (todos m) = Some k" by auto
  from findIndex_Some [OF k] have kl: "k < length (todos m)" by simp
  with assms(1) have "completionConsistent (todos m ! k)" by simp
  from updatedTodo_consistent [OF this assms(2)]
  have "completionConsistent (updatedTodo now k updates m)" .
  with assms(1) have "\<forall>t \<in> set ((todos m)[k := updatedTodo now k updates m]). completionConsistent t"
    using set_update_subset_insert [of "todos m" k "updatedTodo now k updates m"] by auto
  with True k show ?thesis by (simp add: updateTodo_state(1))
qed




section \<open>Saving the records of the coordinator\<close>

lemma priorityString_nonempty: "priorityString p \<noteq> []"
  by (cases p) simp_all

lemma validateTodo_todoToJs:
  assumes "todoId t \<noteq> []" "title t \<noteq> []" "categoryId t \<noteq> []"
  shows "validateTodo (todoToJs t) = Inr ()"
  using assms
  by (cases "completedAt t"; cases "description t"; cases "dueDate t")
    (simp_all add: validateTodo_def todoToJs_def priorityString_nonempty)

lemma validateCategory_categoryToJs:
  assumes "catId c \<noteq> []" "name c \<noteq> []" "color c \<noteq> []"
  shows "validateCategory (categoryToJs c) = Inr ()"
  using assms by (simp add: validateCategory_def categoryToJs_def)

lemma validateTodos_map:
  "\<forall>t \<in> set ts. todoId t \<noteq> [] \<and> title t \<noteq> [] \<and> categoryId t \<noteq> []
   \<Longrightarrow> validateTodos i (map todoToJs ts) = Inr ()"
  by (induction ts arbitrary: i) (simp_all add: validateTodo_todoToJs)

lemma validateCategories_map:
  "\<forall>c \<in> set cs. catId c \<noteq> [] \<and> name c \<noteq> [] \<and> color c \<noteq> []
   \<Longrightarrow> validateCategories i (map categoryToJs cs) = Inr ()"
  by (induction cs arbitrary: i) (simp_all add: validateCategory_categoryToJs)

lemma serializeProperty_todoToJs:
  "\<exists>j. serializeProperty (Suc (Suc n)) dateSerializer k (todoToJs t) = Inr (Some j)"
  by (cases "completedAt t"; cases "description t"; cases "dueDate t")
    (simp_all add: todoToJs_def serializeProperty_date del: serializeProperty.simps
      add: serializeProperty_object serializeProperty_string serializeProperty_unfold)

lemma serializeProperty_categoryToJs:
  "\<exists>j. serializeProperty (Suc (Suc n)) dateSerializer k (categoryToJs c) = Inr (Some j)"
  by (simp add: categoryToJs_def)

lemma serializeElements_todos:
  "\<exists>js. serializeElements (Suc (Suc n)) dateSerializer i (map todoToJs ts) = Inr js"
proof (induction ts arbitrary: i)
  case Nil
  then show ?case by simp
next
  case (Cons t ts)
  from serializeProperty_todoToJs [of n "decimal i" t] obtain j
    where j: "serializeProperty (Suc (Suc n)) dateSerializer (decimal i) (todoToJs t) = Inr (Some j)" ..
  from Cons [of "Suc i"] obtain js
    where js: "serializeElements (Suc (Suc n)) dateSerializer (Suc i) (map todoToJs ts) = Inr js" ..
  show ?case by (simp add: j js del: serializeProperty.simps)
qed

lemma serializeElements_categories:
  "\<exists>js. serializeElements (Suc (Suc n)) dateSerializer i (map categoryToJs cs) = Inr js"
proof (induction cs arbitrary: i)
  case Nil
  then show ?case by simp
next
  case (Cons c cs)
  from serializeProperty_categoryToJs [of n "decimal i" c] obtain j
    where j: "serializeProperty (Suc (Suc n)) dateSerializer (decimal i) (categoryToJs c) = Inr (Some j)" ..
  from Cons [of "Suc i"] obtain js
    where js: "serializeElements (Suc (Suc n)) dateSerializer (Suc i) (map categoryToJs cs) = Inr js" ..
  show ?case by (simp add: j js del: serializeProperty.simps)
qed

lemma stringify_records:
  "\<exists>j. stringify dateSerializer (envelope now (map todoToJs ts, map categoryToJs cs)) = Inr (Some j)"
proof -
  have n: "(998::nat) = Suc (Suc 996)" by simp
  from serializeElements_todos [of 996 0 ts] obtain tjs
    where t: "serializeElements 998 dateSerializer 0 (map todoToJs ts) = Inr tjs"
    unfolding n [symmetric] ..
  from serializeElements_categories [of 996 0 cs] obtain cjs
    where c: "serializeElements 998 dateSerializer 0 (map categoryToJs cs) = Inr cjs"
    unfolding n [symmetric] ..
  show ?thesis
    by (simp add: stringify_def callStack_def envelope_def serializeProperty_array
        serializeProperty_object serializeProperty_string t c del: serializeProperty.simps)
qed

lemma serialized_storable:
  assumes "storable m"
  shows "\<exists>content. serialized now (map todoToJs (todos m), map categoryToJs (categories m)) = Inr content"
proof -
  from assms have "validateData (envelope now (map todoToJs (todos m), map categoryToJs (categories m))) = Inr ()"
    by (simp add: validateData_def envelope_def storable_def validateTodos_map validateCategories_map)
  moreover from stringify_records [of now "todos m" "categories m"] obtain j
    where "stringify dateSerializer (envelope now (map todoToJs (todos m), map categoryToJs (categories m)))
             = Inr (Some j)" ..
  ultimately show ?thesis by (simp add: serialized_def)
qed

lemma saveData_storable:
  assumes "isInitialized m" "storable m"
  shows "fst (saveData now m) = Inr ()"
proof -
  from serialized_storable [OF assms(2), of now] obtain content
    where "serialized now (map todoToJs (todos m), map categoryToJs (categories m)) = Inr content" ..
  with assms(1) show ?thesis
    by (simp add: saveData_def ensureInitialized_def save_result)
qed

lemma autoSave_storable:
  assumes "isInitialized m" "config_autoSave m \<longrightarrow> storable m"
  shows "fst (autoSave now m) = Inr ()"
  using assms saveData_storable [of m now] by (simp add: autoSave_def)

section \<open>Deleting a category without todos\<close>



section \<open>Uniqueness of category names\<close>

lemma autoSave_code:
  assumes "isInitialized m" "fst (autoSave now m) = Inl e"
  shows "errCode e = ''SAVE_ERROR''"
  using assms
  by (auto simp: autoSave_def saveData_def ensureInitialized_def split: if_splits prod.splits sum.splits)

lemma isNameUnique_iff:
  "isNameUnique n cs \<longleftrightarrow> \<not> (\<exists>c \<in> set cs. toLowerCase (name c) = toLowerCase n)"
  by (simp add: isNameUnique_def list_ex_iff)

lemma addCategory_duplicate:
  assumes "isInitialized m" "validateCategoryInput input = []"
  shows "(\<exists>e. fst (addCategory now uuid input m) = Inl e \<and> errCode e = ''DUPLICATE_CATEGORY_NAME'')
         \<longleftrightarrow> (\<exists>c \<in> set (categories m). toLowerCase (name c) = toLowerCase (name input))"
proof (cases "isNameUnique (name input) (categories m)")
  case False
  with assms have "fst (addCategory now uuid input m) = Inl (duplicateCategoryName (name input))"
    by (simp add: addCategory_def ensureInitialized_def)
  moreover have "errCode (duplicateCategoryName (name input)) = ''DUPLICATE_CATEGORY_NAME''"
    by (simp add: duplicateCategoryName_def)
  ultimately show ?thesis using False by (auto simp: isNameUnique_iff)
next
  case True
  let ?m1 = "m\<lparr>categories := categories m @ [createCategory uuid input]\<rparr>"
  have i: "isInitialized ?m1" using assms(1) by simp
  have "errCode e \<noteq> ''DUPLICATE_CATEGORY_NAME''" if "fst (addCategory now uuid input m) = Inl e" for e
  proof -
    from that assms True have "fst (autoSave now ?m1) = Inl e"
      by (auto simp: addCategory_def ensureInitialized_def split: prod.splits sum.splits)
    from autoSave_code [OF i this] show ?thesis by simp
  qed
  with True show ?thesis by (auto simp: isNameUnique_iff)
qed

lemma updateCategory_duplicate:
  assumes "isInitialized m" "findIndex (\<lambda>cat. catId cat = i) (categories m) = Some k"
    and "upd_name updates = Some n" "validateName n = None"
  shows "(\<exists>e. fst (updateCategory now i updates m) = Inl e \<and> errCode e = ''DUPLICATE_CATEGORY_NAME'')
         \<longleftrightarrow> (\<exists>c \<in> set (categories m). catId c \<noteq> i \<and> toLowerCase (name c) = toLowerCase n)"
proof (cases "isNameUnique n (filter (\<lambda>cat. catId cat \<noteq> i) (categories m))")
  case False
  with assms have "validateCategoryUpdate i updates m = Inl (duplicateCategoryName n)"
    by (simp add: validateCategoryUpdate_def)
  with assms have "fst (updateCategory now i updates m) = Inl (duplicateCategoryName n)"
    by (simp add: updateCategory_def ensureInitialized_def)
  moreover have "errCode (duplicateCategoryName n) = ''DUPLICATE_CATEGORY_NAME''"
    by (simp add: duplicateCategoryName_def)
  ultimately show ?thesis using False by (auto simp: isNameUnique_iff)
next
  case True
  let ?m1 = "m\<lparr>categories := (categories m)[k := applyCategoryUpdate (categories m ! k) updates]\<rparr>"
  have i: "isInitialized ?m1" using assms(1) by simp
  have "errCode e \<noteq> ''DUPLICATE_CATEGORY_NAME''" if f: "fst (updateCategory now i updates m) = Inl e" for e
  proof (cases "validateCategoryUpdate i updates m")
    case (Inl e')
    with assms True have "errCode e' = ''VALIDATION_ERROR''"
      by (auto simp: validateCategoryUpdate_def split: option.splits)
    moreover from Inl f assms have "e = e'" by (simp add: updateCategory_def ensureInitialized_def)
    ultimately show ?thesis by simp
  next
    case (Inr u)
    with f assms have "fst (autoSave now ?m1) = Inl e"
      by (auto simp: updateCategory_def ensureInitialized_def split: prod.splits sum.splits)
    from autoSave_code [OF i this] show ?thesis by simp
  qed
  with True show ?thesis by (auto simp: isNameUnique_iff)
qed

lemma toLowerChar_cases:
  "toLowerChar c = c \<or> (c \<in> set ''ABCDEFGHIJKLMNOPQRSTUVWXYZ'' \<and> toLowerChar c \<in> set ''abcdefghijklmnopqrstuvwxyz'')"
proof (cases "map_of (zip ''ABCDEFGHIJKLMNOPQRSTUVWXYZ'' ''abcdefghijklmnopqrstuvwxyz'') c")
  case None
  then show ?thesis by (simp add: toLowerChar_def)
next
  case (Some l)
  then have "(c, l) \<in> set (zip ''ABCDEFGHIJKLMNOPQRSTUVWXYZ'' ''abcdefghijklmnopqrstuvwxyz'')"
    by (rule map_of_SomeD)
  then have "c \<in> set ''ABCDEFGHIJKLMNOPQRSTUVWXYZ''" "l \<in> set ''abcdefghijklmnopqrstuvwxyz''"
    by (rule set_zip_leftD, rule set_zip_rightD)
  moreover have "toLowerChar c = l" using Some by (simp add: toLowerChar_def)
  ultimately show ?thesis by simp
qed

lemma isWhiteSpace_letters:
  "\<forall>c \<in> set ''ABCDEFGHIJKLMNOPQRSTUVWXYZ''. \<not> isWhiteSpace c"
  "\<forall>c \<in> set ''abcdefghijklmnopqrstuvwxyz''. \<not> isWhiteSpace c"
  by (simp_all add: isWhiteSpace_def)

lemma isWhiteSpace_toLowerChar: "isWhiteSpace (toLowerChar c) = isWhiteSpace c"
  using toLowerChar_cases [of c] isWhiteSpace_letters by metis

lemma trim_empty: "length (trim s) = 0 \<longleftrightarrow> (\<forall>c \<in> set s. isWhiteSpace c)"
proof -
  have "dropWhile isWhiteSpace (rev (dropWhile isWhiteSpace s)) = []
        \<longleftrightarrow> dropWhile isWhiteSpace s = []"
  proof
    assume a: "dropWhile isWhiteSpace (rev (dropWhile isWhiteSpace s)) = []"
    show "dropWhile isWhiteSpace s = []"
    proof (rule ccontr)
      assume ne: "dropWhile isWhiteSpace s \<noteq> []"
      then have "\<not> isWhiteSpace (hd (dropWhile isWhiteSpace s))" by (rule hd_dropWhile)
      moreover from ne have "hd (dropWhile isWhiteSpace s) \<in> set (rev (dropWhile isWhiteSpace s))"
        by simp
      moreover from a have "\<forall>c \<in> set (rev (dropWhile isWhiteSpace s)). isWhiteSpace c"
        by (simp only: dropWhile_eq_Nil_conv)
      ultimately show False by blast
    qed
  next
    assume "dropWhile isWhiteSpace s = []"
    then show "dropWhile isWhiteSpace (rev (dropWhile isWhiteSpace s)) = []"
      by (simp only: rev.simps dropWhile.simps)
  qed
  also have "\<dots> \<longleftrightarrow> (\<forall>c \<in> set s. isWhiteSpace c)" by (rule dropWhile_eq_Nil_conv)
  finally show ?thesis by (simp add: trim_def)
qed

lemma validateName_case_variant:
  assumes "toLowerCase n = toLowerCase n'" "validateName n' = None"
  shows "validateName n = None"
proof -
  from assms(1) have l: "length n = length n'"
    unfolding toLowerCase_def by (rule map_eq_imp_length_eq)
  have w: "(\<forall>c \<in> set s. isWhiteSpace c) \<longleftrightarrow> (\<forall>c \<in> set (toLowerCase s). isWhiteSpace c)" for s
    by (simp add: toLowerCase_def isWhiteSpace_toLowerChar)
  have t: "length (trim n) = 0 \<longleftrightarrow> length (trim n') = 0"
    unfolding trim_empty w [of n] w [of n'] assms(1) ..
  from l have e: "n = [] \<longleftrightarrow> n' = []" by auto
  from assms(2) have "n' \<noteq> []" "length (trim n') \<noteq> 0" "\<not> length n' > 50" "toLowerCase n' \<notin> set reservedNames"
    by (auto simp: validateName_def split: if_splits)
  with l t e assms(1) show ?thesis by (simp add: validateName_def)
qed

lemma rename_case_variant:
  assumes "isInitialized m" "findIndex (\<lambda>cat. catId cat = i) (categories m) = Some k"
    and "upd_name updates = Some n" "upd_color updates = None"
    and "toLowerCase n = toLowerCase (name (categories m ! k))"
    and "validateName (name (categories m ! k)) = None"
    and "distinct (map (\<lambda>c. toLowerCase (name c)) (categories m))"
    and "config_autoSave m \<longrightarrow> storable m"
  shows "fst (updateCategory now i updates m) = Inr True
       \<and> categories (snd (updateCategory now i updates m)) = (categories m)[k := (categories m ! k)\<lparr>name := n\<rparr>]"
proof -
  let ?cs = "categories m"
  let ?m1 = "m\<lparr>categories := ?cs[k := applyCategoryUpdate (?cs ! k) updates]\<rparr>"
  from findIndex_Some [OF assms(2)] have k: "k < length ?cs" "catId (?cs ! k) = i" by simp_all
  from validateName_case_variant [OF assms(5,6)] have v: "validateName n = None" .
  then have ne: "n \<noteq> []" by (auto simp: validateName_def split: if_splits)
  have u: "isNameUnique n (filter (\<lambda>cat. catId cat \<noteq> i) ?cs)"
    unfolding isNameUnique_iff
  proof
    assume "\<exists>c \<in> set (filter (\<lambda>cat. catId cat \<noteq> i) ?cs). toLowerCase (name c) = toLowerCase n"
    then obtain c where c: "c \<in> set ?cs" "catId c \<noteq> i" "toLowerCase (name c) = toLowerCase n" by auto
    from c(1) obtain j where j: "j < length ?cs" "?cs ! j = c" by (auto simp: in_set_conv_nth)
    with c(2) k have "j \<noteq> k" by auto
    with assms(7) j k have "toLowerCase (name (?cs ! j)) \<noteq> toLowerCase (name (?cs ! k))"
      by (auto simp: distinct_conv_nth)
    with j c(3) assms(5) show False by simp
  qed
  have a: "applyCategoryUpdate (?cs ! k) updates = (?cs ! k)\<lparr>name := n\<rparr>"
    using assms(3,4) by (simp add: applyCategoryUpdate_def)
  have val: "validateCategoryUpdate i updates m = Inr ()"
    using assms(3,4) v u by (simp add: validateCategoryUpdate_def)
  have s: "config_autoSave ?m1 \<longrightarrow> storable ?m1"
  proof
    assume "config_autoSave ?m1"
    with assms(8) have st: "storable m" by simp
    have "set (?cs[k := (?cs ! k)\<lparr>name := n\<rparr>]) \<subseteq> insert ((?cs ! k)\<lparr>name := n\<rparr>) (set ?cs)"
      by (rule set_update_subset_insert)
    moreover from k(1) have "?cs ! k \<in> set ?cs" by simp
    ultimately show "storable ?m1" using st ne unfolding a storable_def by auto
  qed
  have "isInitialized ?m1" using assms(1) by simp
  from autoSave_storable [OF this s, of now] obtain m2
    where as: "autoSave now ?m1 = (Inr (), m2)" by (metis prod.collapse)
  then have m2: "categories m2 = ?cs[k := (?cs ! k)\<lparr>name := n\<rparr>]"
    using autoSave_fields(2) [of now ?m1] a by simp
  have "updateCategory now i updates m = (Inr True, m2)"
    using assms(1,2) val as by (simp add: updateCategory_def ensureInitialized_def)
  with m2 show ?thesis by simp
qed

text \<open>
  C8. On an initialized coordinator, \<open>addCategory\<close> with an input that passes validation
  fails with the code \<open>DUPLICATE_CATEGORY_NAME\<close> if and only if some existing category
  has the same name in lower case. \<open>updateCategory\<close> with a valid new name fails with that
  code if and only if a category with another identifier has the same name in lower
  case. Renaming a category to a case variant of its own valid name returns \<open>true\<close> and
  stores the new name, when the names are pairwise different in lower case and the
  records can be saved.
\<close>

theorem category_name_uniqueness:
  assumes "isInitialized m"
  shows "(validateCategoryInput input = [] \<longrightarrow>
            ((\<exists>e. fst (addCategory now uuid input m) = Inl e \<and> errCode e = ''DUPLICATE_CATEGORY_NAME'')
              \<longleftrightarrow> (\<exists>c \<in> set (categories m). toLowerCase (name c) = toLowerCase (name input))))
       \<and> (findIndex (\<lambda>cat. catId cat = i) (categories m) = Some k \<and> upd_name updates = Some n
            \<and> validateName n = None \<longrightarrow>
            ((\<exists>e. fst (updateCategory now i updates m) = Inl e \<and> errCode e = ''DUPLICATE_CATEGORY_NAME'')
              \<longleftrightarrow> (\<exists>c \<in> set (categories m). catId c \<noteq> i \<and> toLowerCase (name c) = toLowerCase n)))
       \<and> (findIndex (\<lambda>cat. catId cat = i) (categories m) = Some k \<and> upd_name updates = Some n
            \<and> upd_color updates = None
            \<and> toLowerCase n = toLowerCase (name (categories m ! k))
            \<and> validateName (name (categories m ! k)) = None
            \<and> distinct (map (\<lambda>c. toLowerCase (name c)) (categories m))
            \<and> (config_autoSave m \<longrightarrow> storable m) \<longrightarrow>
            fst (updateCategory now i updates m) = Inr True
            \<and> categories (snd (updateCategory now i updates m))
                = (categories m)[k := (categories m ! k)\<lparr>name := n\<rparr>])"
proof (intro conjI impI)
  assume "validateCategoryInput input = []"
  with assms show "(\<exists>e. fst (addCategory now uuid input m) = Inl e \<and> errCode e = ''DUPLICATE_CATEGORY_NAME'')
              \<longleftrightarrow> (\<exists>c \<in> set (categories m). toLowerCase (name c) = toLowerCase (name input))"
    by (rule addCategory_duplicate)
next
  assume "findIndex (\<lambda>cat. catId cat = i) (categories m) = Some k \<and> upd_name updates = Some n
            \<and> validateName n = None"
  then have h: "findIndex (\<lambda>cat. catId cat = i) (categories m) = Some k" "upd_name updates = Some n"
    "validateName n = None" by simp_all
  from assms h
  show "(\<exists>e. fst (updateCategory now i updates m) = Inl e \<and> errCode e = ''DUPLICATE_CATEGORY_NAME'')
              \<longleftrightarrow> (\<exists>c \<in> set (categories m). catId c \<noteq> i \<and> toLowerCase (name c) = toLowerCase n)"
    by (rule updateCategory_duplicate)
next
  assume a: "findIndex (\<lambda>cat. catId cat = i) (categories m) = Some k \<and> upd_name updates = Some n
            \<and> upd_color updates = None
            \<and> toLowerCase n = toLowerCase (name (categories m ! k))
            \<and> validateName (name (categories m ! k)) = None
            \<and> distinct (map (\<lambda>c. toLowerCase (name c)) (categories m))
            \<and> (config_autoSave m \<longrightarrow> storable m)"
  then have h: "findIndex (\<lambda>cat. catId cat = i) (categories m) = Some k" "upd_name updates = Some n"
    "upd_color updates = None" "toLowerCase n = toLowerCase (name (categories m ! k))"
    "validateName (name (categories m ! k)) = None"
    "distinct (map (\<lambda>c. toLowerCase (name c)) (categories m))"
    "config_autoSave m \<longrightarrow> storable m" by blast+
  from rename_case_variant [OF assms h, of now]
  show "fst (updateCategory now i updates m) = Inr True"
    and "categories (snd (updateCategory now i updates m))
                = (categories m)[k := (categories m ! k)\<lparr>name := n\<rparr>]" by simp_all
qed

theorem category_name_uniqueness_witness:
  "addCategory clock0 ''c-1'' \<lparr>name = ''Work'', color = ''#2ecc71''\<rparr> (testManager False [] [])
     = (Inr (work\<lparr>todoCount := 0\<rparr>), testManager False [] [work\<lparr>todoCount := 0\<rparr>])
   \<and> validateCategoryInput \<lparr>name = ''work'', color = ''#2ecc71''\<rparr> = []
   \<and> (\<exists>e. fst (addCategory clock1 ''c-2'' \<lparr>name = ''work'', color = ''#2ecc71''\<rparr>
               (testManager False [] [work\<lparr>todoCount := 0\<rparr>])) = Inl e
          \<and> errCode e = ''DUPLICATE_CATEGORY_NAME'')
   \<and> toLowerCase ''WORK'' = toLowerCase (name work)
   \<and> storable (testManager True [milk] [work, home])
   \<and> fst (updateCategory clock1 ''c-1'' \<lparr>upd_name = Some ''WORK'', upd_color = None, upd_todoCount = None\<rparr>
            (testManager True [milk] [work, home])) = Inr True
   \<and> map name (categories (snd (updateCategory clock1 ''c-1''
            \<lparr>upd_name = Some ''WORK'', upd_color = None, upd_todoCount = None\<rparr>
            (testManager True [milk] [work, home])))) = [''WORK'', ''Home'']"
proof -
  let ?lower = "\<lparr>name = ''work'', color = ''#2ecc71''\<rparr>"
  let ?m1 = "testManager False [] [work\<lparr>todoCount := 0\<rparr>]"
  let ?m = "testManager True [milk] [work, home]"
  let ?u = "\<lparr>upd_name = Some ''WORK'', upd_color = None, upd_todoCount = None\<rparr>"
  have v: "validateCategoryInput \<lparr>name = ''Work'', color = ''#2ecc71''\<rparr> = []"
    "validateCategoryInput ?lower = []" "validateName ''Work'' = None"
    by (simp_all add: validateCategoryInput_def validateName_def validateColor_def
        trim_def isWhiteSpace_def toLowerCase_def toLowerChar_def reservedNames_def
        hexColorRegex_def startsWith_def isHexDigit_def Let_def)
  have lw: "toLowerCase ''Work'' = ''work''" "toLowerCase ''work'' = ''work''"
    "toLowerCase ''WORK'' = ''work''" "toLowerCase ''Home'' = ''home''"
    by (simp_all add: toLowerCase_def toLowerChar_def)
  have a: "addCategory clock0 ''c-1'' \<lparr>name = ''Work'', color = ''#2ecc71''\<rparr> (testManager False [] [])
     = (Inr (work\<lparr>todoCount := 0\<rparr>), testManager False [] [work\<lparr>todoCount := 0\<rparr>])"
    unfolding addCategory_def
    by (simp add: v ensureInitialized_def isNameUnique_def autoSave_def createCategory_def
        startsWith_def testManager_def work_def)
  have i1: "isInitialized ?m1" and i: "isInitialized ?m" by (simp_all add: testManager_def)
  have "\<exists>c \<in> set (categories ?m1). toLowerCase (name c) = toLowerCase (name ?lower)"
    by (simp add: testManager_def work_def lw)
  with category_name_uniqueness [OF i1, THEN conjunct1, rule_format, OF v(2), of clock1 "''c-2''"]
  have d: "\<exists>e. fst (addCategory clock1 ''c-2'' ?lower ?m1) = Inl e \<and> errCode e = ''DUPLICATE_CATEGORY_NAME''"
    by blast
  have st: "storable ?m"
    by (simp add: storable_def testManager_def milk_def work_def home_def)
  have l: "toLowerCase ''WORK'' = toLowerCase (name work)" by (simp add: work_def lw)
  have h: "findIndex (\<lambda>cat. catId cat = ''c-1'') (categories ?m) = Some 0 \<and> upd_name ?u = Some ''WORK''
            \<and> upd_color ?u = None
            \<and> toLowerCase ''WORK'' = toLowerCase (name (categories ?m ! 0))
            \<and> validateName (name (categories ?m ! 0)) = None
            \<and> distinct (map (\<lambda>c. toLowerCase (name c)) (categories ?m))
            \<and> (config_autoSave ?m \<longrightarrow> storable ?m)"
    using st by (simp add: testManager_def work_def home_def lw v)
  from category_name_uniqueness [OF i, THEN conjunct2, THEN conjunct2, rule_format, OF h, of clock1]
  have r: "fst (updateCategory clock1 ''c-1'' ?u ?m) = Inr True"
    "map name (categories (snd (updateCategory clock1 ''c-1'' ?u ?m))) = [''WORK'', ''Home'']"
    by (simp_all add: testManager_def work_def home_def)
  from a v(2) d l st r show ?thesis by blast
qed

text \<open>
  C8 as stated, with an ``if and only if'' for every input, fails: the input is validated
  before its name is compared, so a second \<open>work\<close> with a colour that is no hex code is
  refused with \<open>VALIDATION_ERROR\<close>, although \<open>Work\<close> exists. With a valid colour the code
  of the error is \<open>DUPLICATE_CATEGORY_NAME\<close>.
\<close>

theorem duplicate_name_after_validation_counterexample:
  "list_ex (\<lambda>c. toLowerCase (name c) = toLowerCase ''work'') (categories (testManager False [] [work]))
   \<and> addCategory clock1 ''c-3'' \<lparr>name = ''work'', color = ''zzz''\<rparr> (testManager False [] [work])
       = (Inl (TodoManagerError
                ''Invalid category input: Color must be a valid hex color code (e.g., #FF0000 or #F00)''
                ''VALIDATION_ERROR''),
          testManager False [] [work])
   \<and> map_sum errCode catId
        (fst (addCategory clock1 ''c-3'' \<lparr>name = ''work'', color = ''#2ecc71''\<rparr> (testManager False [] [work])))
       = Inl ''DUPLICATE_CATEGORY_NAME''"
  unfolding addCategory_def
  by (simp add: testManager_def work_def toLowerCase_def toLowerChar_def ensureInitialized_def
      validateCategoryInput_def validateName_def validateColor_def
      trim_def isWhiteSpace_def reservedNames_def
      hexColorRegex_def startsWith_def isHexDigit_def Let_def isNameUnique_def
      duplicateCategoryName_def)

end
